theory Spec2Isabelle
  imports Main "HOL-Library.Word" "HOL-Library.Multiset"
begin

section \<open>JavaScript strings and the built-ins the pipeline uses\<close>

text \<open>
  A JavaScript string is a sequence of UTF-16 code units; \<open>length\<close> counts code units.
  \<open>js\<close> embeds an ASCII literal.
\<close>

type_synonym jschar = "16 word"
type_synonym jsstring = "jschar list"

definition js :: "string \<Rightarrow> jsstring" where
  "js s = map of_char s"

abbreviation NL :: jsstring where
  "NL \<equiv> [0x0A]"

text \<open>
  \<open>String.prototype.split(sep)\<close> with a string separator: the pieces between the leftmost,
  non-overlapping occurrences of \<open>sep\<close>. An empty separator splits into code units.
\<close>

fun js_split :: "'a list \<Rightarrow> 'a list \<Rightarrow> 'a list list" where
  "js_split sep [] = (if sep = [] then [] else [[]])"
| "js_split sep (c # cs) =
     (if sep = [] then [c] # js_split sep cs
      else if take (length sep) (c # cs) = sep
        then [] # js_split sep (drop (length sep - 1) cs)
      else (case js_split sep cs of [] \<Rightarrow> [[c]] | l # ls \<Rightarrow> (c # l) # ls))"

text \<open>\<open>Array.prototype.join(sep)\<close> on an array of strings.\<close>

fun js_join :: "'a list \<Rightarrow> 'a list list \<Rightarrow> 'a list" where
  "js_join sep [] = []"
| "js_join sep [x] = x"
| "js_join sep (x # y # ys) = x @ sep @ js_join sep (y # ys)"

text \<open>\<open>join\<close> on an array that may hold \<open>null\<close>: a \<open>null\<close> element renders as the empty string.\<close>

definition js_join_nullable :: "'a list \<Rightarrow> 'a list option list \<Rightarrow> 'a list" where
  "js_join_nullable sep xs = js_join sep (map (\<lambda>x. case x of None \<Rightarrow> [] | Some s \<Rightarrow> s) xs)"

definition startsWith :: "'a list \<Rightarrow> 'a list \<Rightarrow> bool" where
  "startsWith s p = (take (length p) s = p)"

text \<open>
  The code units removed by \<open>String.prototype.trim\<close> and matched by \<open>\s\<close> in a regular
  expression: WhiteSpace and LineTerminator of ECMAScript.
\<close>

definition isWhiteSpace :: "jschar \<Rightarrow> bool" where
  "isWhiteSpace c =
     (c = 0x09 \<or> c = 0x0A \<or> c = 0x0B \<or> c = 0x0C \<or> c = 0x0D \<or> c = 0x20 \<or> c = 0xA0
      \<or> c = 0x1680 \<or> (0x2000 \<le> c \<and> c \<le> 0x200A) \<or> c = 0x2028 \<or> c = 0x2029
      \<or> c = 0x202F \<or> c = 0x205F \<or> c = 0x3000 \<or> c = 0xFEFF)"

definition js_trim :: "jsstring \<Rightarrow> jsstring" where
  "js_trim s = rev (dropWhile isWhiteSpace (rev (dropWhile isWhiteSpace s)))"

text \<open>\<open>Array.prototype.slice(start, end)\<close> on integers: a negative index counts from the end.\<close>

definition js_slice :: "'a list \<Rightarrow> int \<Rightarrow> int \<Rightarrow> 'a list" where
  "js_slice xs start fin =
     (let len = int (length xs);
          k = (if start < 0 then max (len + start) 0 else min start len);
          final = (if fin < 0 then max (len + fin) 0 else min fin len)
      in take (nat (final - k)) (drop (nat k) xs))"

text \<open>\<open>xs[i]\<close> for an integer \<open>i\<close>: \<open>undefined\<close> (here \<open>None\<close>) out of range.\<close>

definition js_index :: "'a list \<Rightarrow> int \<Rightarrow> 'a option" where
  "js_index xs i = (if 0 \<le> i \<and> i < int (length xs) then Some (xs ! nat i) else None)"

text \<open>\<open>String.prototype.indexOf(pat)\<close>: the first position where \<open>pat\<close> occurs.\<close>

fun js_indexOf :: "'a list \<Rightarrow> 'a list \<Rightarrow> nat option" where
  "js_indexOf pat [] = (if pat = [] then Some 0 else None)"
| "js_indexOf pat (c # cs) =
     (if take (length pat) (c # cs) = pat then Some 0 else map_option Suc (js_indexOf pat cs))"

text \<open>
  GetSubstitution of ECMAScript for a string pattern, which has no captures: in the
  replacement text \<open>$$\<close> stands for a dollar sign, \<open>$&\<close> for the matched text, \<open>$`\<close> for
  the text before the match and \<open>$'\<close> for the text after it; any other text is literal.
\<close>

fun getSubstitution :: "jsstring \<Rightarrow> jsstring \<Rightarrow> jsstring \<Rightarrow> jsstring \<Rightarrow> jsstring" where
  "getSubstitution matched preceding following [] = []"
| "getSubstitution matched preceding following [c] = [c]"
| "getSubstitution matched preceding following (c # d # rest) =
     (if c = 0x24 \<and> d = 0x24 then 0x24 # getSubstitution matched preceding following rest
      else if c = 0x24 \<and> d = 0x26 then matched @ getSubstitution matched preceding following rest
      else if c = 0x24 \<and> d = 0x60 then preceding @ getSubstitution matched preceding following rest
      else if c = 0x24 \<and> d = 0x27 then following @ getSubstitution matched preceding following rest
      else c # getSubstitution matched preceding following (d # rest))"

text \<open>\<open>String.prototype.replace(pat, replacement)\<close> with two strings: the first occurrence only.\<close>

definition js_replace :: "jsstring \<Rightarrow> jsstring \<Rightarrow> jsstring \<Rightarrow> jsstring" where
  "js_replace s pat replacement =
     (case js_indexOf pat s of
        None \<Rightarrow> s
      | Some pos \<Rightarrow>
          (let preceding = take pos s; following = drop (pos + length pat) s
           in preceding @ getSubstitution pat preceding following replacement @ following))"

section \<open>Errors\<close>

datatype error =
    URIError
  | TypeError
  | SyntaxError
  | Rejected
  | AllConvoBuildersFailed

section \<open>encodeURIComponent\<close>

definition uriUnreserved :: "jschar \<Rightarrow> bool" where
  "uriUnreserved c =
     ((0x41 \<le> c \<and> c \<le> 0x5A) \<or> (0x61 \<le> c \<and> c \<le> 0x7A) \<or> (0x30 \<le> c \<and> c \<le> 0x39)
      \<or> c = 0x2D \<or> c = 0x5F \<or> c = 0x2E \<or> c = 0x21 \<or> c = 0x7E \<or> c = 0x2A
      \<or> c = 0x27 \<or> c = 0x28 \<or> c = 0x29)"

definition isHighSurrogate :: "jschar \<Rightarrow> bool" where
  "isHighSurrogate c = (0xD800 \<le> c \<and> c \<le> 0xDBFF)"

definition isLowSurrogate :: "jschar \<Rightarrow> bool" where
  "isLowSurrogate c = (0xDC00 \<le> c \<and> c \<le> 0xDFFF)"

text \<open>The UTF-8 octets of a code point.\<close>

definition utf8 :: "nat \<Rightarrow> nat list" where
  "utf8 cp =
     (if cp < 0x80 then [cp]
      else if cp < 0x800 then [0xC0 + cp div 64, 0x80 + cp mod 64]
      else if cp < 0x10000 then
        [0xE0 + cp div 4096, 0x80 + (cp div 64) mod 64, 0x80 + cp mod 64]
      else
        [0xF0 + cp div 262144, 0x80 + (cp div 4096) mod 64, 0x80 + (cp div 64) mod 64,
         0x80 + cp mod 64])"

definition hexDigit :: "nat \<Rightarrow> jschar" where
  "hexDigit n = (if n < 10 then of_nat (0x30 + n) else of_nat (0x37 + n))"

definition percentEncode :: "nat list \<Rightarrow> jsstring" where
  "percentEncode octets = concat (map (\<lambda>b. [0x25, hexDigit (b div 16), hexDigit (b mod 16)]) octets)"

text \<open>
  \<open>encodeURIComponent\<close>: unreserved code units are kept, every other code point is written
  as the percent-escaped octets of its UTF-8 form, and a surrogate without its partner
  raises \<open>URIError\<close>.
\<close>

fun encodeURIComponent :: "jsstring \<Rightarrow> error + jsstring" where
  "encodeURIComponent [] = Inr []"
| "encodeURIComponent (c # cs) =
     (if uriUnreserved c then
        (case encodeURIComponent cs of Inl e \<Rightarrow> Inl e | Inr r \<Rightarrow> Inr (c # r))
      else if isLowSurrogate c then Inl URIError
      else if \<not> isHighSurrogate c then
        (case encodeURIComponent cs of
           Inl e \<Rightarrow> Inl e
         | Inr r \<Rightarrow> Inr (percentEncode (utf8 (unat c)) @ r))
      else
        (case cs of
           [] \<Rightarrow> Inl URIError
         | d # ds \<Rightarrow>
             if isLowSurrogate d then
               (case encodeURIComponent ds of
                  Inl e \<Rightarrow> Inl e
                | Inr r \<Rightarrow>
                    Inr (percentEncode
                          (utf8 (0x10000 + (unat c - 0xD800) * 0x400 + (unat d - 0xDC00))) @ r))
             else Inl URIError))"

section \<open>Changed files and the object store\<close>

text \<open>
  \<open>PRFile\<close> (declared in \<open>constants.ts\<close>) with the fields the pipeline reads and writes;
  \<open>patch\<close> is a string and \<open>patchTokenLength\<close> a whole number, as the pipeline uses them.
  The pipeline writes \<open>patchTokenLength\<close>, \<open>old_contents\<close> and \<open>current_contents\<close> onto the
  records it was handed, so file records live in a store and are passed by reference: a
  reference is an index into the store, and an object literal allocates at its end.
\<close>

record PRFile =
  filename :: jsstring
  patch :: jsstring
  patchTokenLength :: int
  old_contents :: "jsstring option"
  current_contents :: "jsstring option"

type_synonym ref = nat
type_synonym heap = "PRFile list"

definition alloc :: "heap \<Rightarrow> PRFile \<Rightarrow> ref \<times> heap" where
  "alloc h v = (length h, h @ [v])"

section \<open>Deletion stripping\<close>

definition strippedPatch :: "jsstring \<Rightarrow> jsstring" where
  "strippedPatch originalPatch =
     js_join NL (filter (\<lambda>line. \<not> startsWith line (js ''-'')) (js_split NL originalPatch))"

text \<open>
  \<open>stripRemovedLines\<close> builds a new object \<open>{ ...originalFile, patch: strippedPatch }\<close>; the
  record it was given is not written.
\<close>

definition stripRemovedLines :: "heap \<Rightarrow> ref \<Rightarrow> ref \<times> heap" where
  "stripRemovedLines h originalFile =
     alloc h ((h ! originalFile)\<lparr>patch := strippedPatch (patch (h ! originalFile))\<rparr>)"

section \<open>Suggestions, responses and the collaborators of the pipeline\<close>

record PRSuggestion =
  describe :: jsstring
  type :: jsstring
  comment :: jsstring
  code :: jsstring
  filename :: jsstring

record CodeSuggestion =
  cs_file :: jsstring
  line_start :: int
  line_end :: int
  correction :: jsstring
  comment :: jsstring

record BuilderResponse =
  comment :: jsstring
  structuredComments :: "PRSuggestion list"

record Review =
  review :: "BuilderResponse option"
  suggestions :: "CodeSuggestion list"

text \<open>A conversation is a list of messages, each a role and a content.\<close>

type_synonym conversation = "(jsstring \<times> jsstring) list"

text \<open>
  The message of a chat completion: its text (\<open>null\<close> when absent) and the argument text of
  its function call (absent when the model made none).
\<close>

record ChatMessage =
  content :: "jsstring option"
  function_call :: "jsstring option"

text \<open>
  What the markup parser yields for one suggestion element: the first child of each tag, or
  nothing when the tag is missing.
\<close>

record RawSuggestion =
  raw_describe :: "jsstring option"
  raw_type :: "jsstring option"
  raw_comment :: "jsstring option"
  raw_code :: "jsstring option"
  raw_filename :: "jsstring option"

text \<open>
  The arguments of the inline-fix function call, after \<open>JSON.parse\<close>, typed as the schema of
  the call asks: a string, two integers, a string.
\<close>

record FixArgs =
  arg_code :: jsstring
  arg_lineStart :: int
  arg_lineEnd :: int
  arg_comment :: jsstring

record BranchDetails =
  name :: jsstring
  sha :: jsstring
  url :: jsstring

record Payload =
  owner_login :: jsstring
  repository_name :: jsstring
  base_ref :: jsstring
  base_sha :: jsstring
  head_ref :: jsstring
  head_sha :: jsstring
  pull_request_url :: jsstring

text \<open>
  The collaborators that live in other modules are parameters of the model:
  the built-in \<open>toLowerCase\<close>; \<open>isConversationWithinLimit\<close>, \<open>constructPrompt\<close>,
  \<open>buildPatchPrompt\<close>, \<open>getTokenLength\<close>, \<open>getXMLReviewPrompt\<close>, \<open>getReviewPrompt\<close> and
  \<open>PR_SUGGESTION_TEMPLATE\<close> of the prompts module;
  the \<open>identity\<close> method of a suggestion; \<open>getInlineFixPrompt\<close>; the chat completion service
  (answering the \<open>n\<close>-th call of a run with the messages of its choices, or rejecting); the
  markup parser (\<open>None\<close> when the document has no suggestion list); \<open>JSON.parse\<close> on the
  arguments of a function call; and \<open>getGitFile\<close>.
\<close>

record env =
  toLowerCase :: "jsstring \<Rightarrow> jsstring"
  isConversationWithinLimit :: "conversation \<Rightarrow> bool"
  constructPrompt ::
    "PRFile list \<Rightarrow> (PRFile \<Rightarrow> jsstring) \<Rightarrow> (jsstring \<Rightarrow> conversation) \<Rightarrow> conversation"
  buildPatchPrompt :: "PRFile \<Rightarrow> jsstring"
  getTokenLength :: "jsstring \<Rightarrow> int"
  getXMLReviewPrompt :: "jsstring \<Rightarrow> conversation"
  getReviewPrompt :: "jsstring \<Rightarrow> conversation"
  PR_SUGGESTION_TEMPLATE :: jsstring
  identity :: "PRSuggestion \<Rightarrow> jsstring"
  getInlineFixPrompt :: "jsstring option \<Rightarrow> PRSuggestion \<Rightarrow> conversation"
  completionsCreate :: "nat \<Rightarrow> conversation \<Rightarrow> bool \<Rightarrow> error + ChatMessage list"
  parseStringPromise :: "jsstring \<Rightarrow> error + RawSuggestion list option"
  JSON_parse :: "jsstring \<Rightarrow> error + FixArgs"
  getGitFile :: "BranchDetails \<Rightarrow> jsstring \<Rightarrow> error + jsstring option"

text \<open>The first error of a list of results, or all their values.\<close>

fun allResults :: "('e + 'a) list \<Rightarrow> 'e + 'a list" where
  "allResults [] = Inr []"
| "allResults (Inl e # rs) = Inl e"
| "allResults (Inr x # rs) = (case allResults rs of Inl e \<Rightarrow> Inl e | Inr xs \<Rightarrow> Inr (x # xs))"

section \<open>A Map in insertion order\<close>

text \<open>
  A JavaScript \<open>Map\<close> iterates in the order its keys were first set; setting a key that is
  present replaces its value in place.
\<close>

fun mapSet :: "'k \<Rightarrow> 'v \<Rightarrow> ('k \<times> 'v) list \<Rightarrow> ('k \<times> 'v) list" where
  "mapSet k v [] = [(k, v)]"
| "mapSet k v ((k', v') # m) = (if k' = k then (k', v) # m else (k', v') # mapSet k v m)"

text \<open>\<open>if (!m.has(k)) m.set(k, []); m.get(k).push(v)\<close>\<close>

definition mapPush :: "'k \<Rightarrow> 'v \<Rightarrow> ('k \<times> 'v list) list \<Rightarrow> ('k \<times> 'v list) list" where
  "mapPush k v m =
     (case map_of m k of None \<Rightarrow> m @ [(k, [v])] | Some vs \<Rightarrow> mapSet k (vs @ [v]) m)"

section \<open>Deduplication and comment rendering\<close>

definition dedupSuggestions :: "env \<Rightarrow> PRSuggestion list \<Rightarrow> PRSuggestion list" where
  "dedupSuggestions E suggestionList =
     map snd (fold (\<lambda>suggestion suggestionsMap.
                      mapSet (identity E suggestion) suggestion suggestionsMap) suggestionList [])"

text \<open>\<open>codeblock ? encodeURIComponent(`\n${codeblock}\n`) : ""\<close>\<close>

definition encodedCodeBlockOf :: "jsstring option \<Rightarrow> error + jsstring" where
  "encodedCodeBlockOf codeblock =
     (case codeblock of
        None \<Rightarrow> Inr []
      | Some cb \<Rightarrow> if cb = [] then Inr [] else encodeURIComponent (NL @ cb @ NL))"

text \<open>The link without the code block; the fully-populated link appends the encoded block.\<close>

definition newIssueLink :: "jsstring \<Rightarrow> jsstring \<Rightarrow> jsstring \<Rightarrow> jsstring \<Rightarrow> jsstring" where
  "newIssueLink owner repoName encodedTitle encodedBody =
     js ''https://github.com/'' @ owner @ js ''/'' @ repoName @ js ''/issues/new?title=''
       @ encodedTitle @ js ''&body='' @ encodedBody"

text \<open>The \<open>url\<close> variable of \<open>generateGithubIssueUrl\<close> when the function returns.\<close>

definition issueUrl ::
  "jsstring \<Rightarrow> jsstring \<Rightarrow> jsstring \<Rightarrow> jsstring \<Rightarrow> jsstring option \<Rightarrow> error + jsstring" where
  "issueUrl owner repoName title body codeblock =
     (case encodeURIComponent title of
        Inl e \<Rightarrow> Inl e
      | Inr encodedTitle \<Rightarrow>
     (case encodeURIComponent body of
        Inl e \<Rightarrow> Inl e
      | Inr encodedBody \<Rightarrow>
     (case encodedCodeBlockOf codeblock of
        Inl e \<Rightarrow> Inl e
      | Inr encodedCodeBlock \<Rightarrow>
          (let full = newIssueLink owner repoName encodedTitle encodedBody @ encodedCodeBlock
           in Inr (if length full > 2048
                   then newIssueLink owner repoName encodedTitle encodedBody
                   else full)))))"

definition generateGithubIssueUrl ::
  "jsstring \<Rightarrow> jsstring \<Rightarrow> jsstring \<Rightarrow> jsstring \<Rightarrow> jsstring option \<Rightarrow> error + jsstring" where
  "generateGithubIssueUrl owner repoName title body codeblock =
     (case issueUrl owner repoName title body codeblock of
        Inl e \<Rightarrow> Inl e
      | Inr link \<Rightarrow> Inr (js ''[Create Issue]('' @ link @ js '')''))"

definition renderSuggestion :: "env \<Rightarrow> jsstring \<Rightarrow> jsstring \<Rightarrow> PRSuggestion \<Rightarrow> error + jsstring" where
  "renderSuggestion E owner repo suggestion =
     (case generateGithubIssueUrl owner repo (describe suggestion)
             (PRSuggestion.comment suggestion) (Some (code suggestion)) of
        Inl e \<Rightarrow> Inl e
      | Inr issueLink \<Rightarrow>
          Inr (js_replace
                (js_replace
                  (js_replace (PR_SUGGESTION_TEMPLATE E) (js ''{COMMENT}'')
                     (PRSuggestion.comment suggestion))
                  (js ''{CODE}'') (code suggestion))
                (js ''{ISSUE_LINK}'') issueLink))"

definition convertPRSuggestionToComment ::
  "env \<Rightarrow> jsstring \<Rightarrow> jsstring \<Rightarrow> PRSuggestion list \<Rightarrow> error + jsstring list" where
  "convertPRSuggestionToComment E owner repo suggestionList =
     (let suggestionsMap =
            fold (\<lambda>suggestion m. mapPush (PRSuggestion.filename suggestion) suggestion m)
              suggestionList []
      in allResults
           (map (\<lambda>(fname, group).
                   case allResults (map (renderSuggestion E owner repo) group) of
                     Inl e \<Rightarrow> Inl e
                   | Inr blocks \<Rightarrow> Inr (js_join NL ((js ''## '' @ fname @ NL) # blocks)))
              suggestionsMap))"

section \<open>The structured and the plain response builder\<close>

definition wrapCode :: "jsstring \<Rightarrow> jsstring" where
  "wrapCode fb =
     js_join (js '']]></code>'')
       (js_split (js ''</code>'')
         (js_join (js ''<code><![CDATA['') (js_split (js ''<code>'') fb)))"

definition trimCode :: "jsstring \<Rightarrow> jsstring" where
  "trimCode code0 =
     (let lines = js_split NL (js_trim code0);
          lines1 = lines[0 := js_trim (lines ! 0)];
          lines2 = lines1[length lines1 - 1 := js_trim (lines1 ! (length lines1 - 1))]
      in js_join NL lines2)"

definition toSuggestion :: "RawSuggestion \<Rightarrow> error + PRSuggestion" where
  "toSuggestion rawSuggestion =
     (case (raw_code rawSuggestion, raw_describe rawSuggestion, raw_type rawSuggestion,
            raw_comment rawSuggestion, raw_filename rawSuggestion) of
        (Some c, Some d, Some t, Some m, Some f) \<Rightarrow>
          Inr \<lparr>describe = d, type = t, comment = m, code = trimCode c, filename = f\<rparr>
      | _ \<Rightarrow> Inl TypeError)"

definition processXMLSuggestions :: "env \<Rightarrow> jsstring option list \<Rightarrow> error + PRSuggestion list" where
  "processXMLSuggestions E feedbacks =
     (if None \<in> set feedbacks then Inl TypeError
      else
        (case allResults (map (\<lambda>fb. parseStringPromise E (wrapCode (the fb))) feedbacks) of
           Inl e \<Rightarrow> Inl e
         | Inr parsedSuggestions \<Rightarrow>
             if None \<in> set parsedSuggestions then Inl TypeError
             else allResults (map toSuggestion (concat (map the parsedSuggestions)))))"

definition xmlResponseBuilder ::
  "env \<Rightarrow> jsstring \<Rightarrow> jsstring \<Rightarrow> jsstring option list \<Rightarrow> error + BuilderResponse" where
  "xmlResponseBuilder E owner repoName feedbacks =
     (case processXMLSuggestions E feedbacks of
        Inl e \<Rightarrow> Inl e
      | Inr parsedXMLSuggestions \<Rightarrow>
          (case convertPRSuggestionToComment E owner repoName
                  (dedupSuggestions E parsedXMLSuggestions) of
             Inl e \<Rightarrow> Inl e
           | Inr comments \<Rightarrow>
               Inr \<lparr>comment = js_join NL comments,
                    structuredComments = parsedXMLSuggestions\<rparr>))"

definition curriedXmlResponseBuilder ::
  "env \<Rightarrow> jsstring \<Rightarrow> jsstring \<Rightarrow> jsstring option list \<Rightarrow> error + BuilderResponse" where
  "curriedXmlResponseBuilder E owner repoName =
     (\<lambda>feedbacks. xmlResponseBuilder E owner repoName feedbacks)"

definition basicResponseBuilder :: "jsstring option list \<Rightarrow> error + BuilderResponse" where
  "basicResponseBuilder feedbacks =
     Inr \<lparr>comment = js_join_nullable NL feedbacks, structuredComments = []\<rparr>"

section \<open>File filter\<close>

definition extensionsToIgnore :: "jsstring list" where
  "extensionsToIgnore =
     map js [''pdf'', ''png'', ''jpg'', ''jpeg'', ''gif'', ''mp4'', ''mp3'', ''md'', ''json'',
             ''env'', ''toml'', ''svg'']"

definition filesToIgnore :: "jsstring list" where
  "filesToIgnore =
     map js [''package-lock.json'', ''yarn.lock'', ''.gitignore'', ''package.json'',
             ''tsconfig.json'', ''poetry.lock'', ''readme.md'']"

text \<open>
  \<open>split\<close> with a separator that is not empty never gives an empty array (lemma
  \<open>js_split_nonempty\<close>), so \<open>pop()\<close> after it is the last piece.
\<close>

definition filterFile :: "env \<Rightarrow> jsstring \<Rightarrow> bool" where
  "filterFile E filepath =
     (let fname = last (js_split (js ''/'') (toLowerCase E filepath))
      in if fname \<noteq> [] \<and> fname \<in> set filesToIgnore then False
         else
           (let splitFilename = js_split (js ''.'') (toLowerCase E fname)
            in if length splitFilename \<le> 1 then False
               else
                 (let extension = toLowerCase E (last splitFilename)
                  in if extension \<noteq> [] \<and> extension \<in> set extensionsToIgnore then False
                     else True)))"

definition filterPRFile :: "env \<Rightarrow> PRFile \<Rightarrow> bool" where
  "filterPRFile E f = filterFile E (PRFile.filename f)"

section \<open>Batch planning\<close>

definition fileExtension :: "env \<Rightarrow> PRFile \<Rightarrow> jsstring" where
  "fileExtension E f = toLowerCase E (last (js_split (js ''.'') (PRFile.filename f)))"

definition groupFilesByExtension :: "env \<Rightarrow> heap \<Rightarrow> ref list \<Rightarrow> (jsstring \<times> ref list) list" where
  "groupFilesByExtension E h files =
     fold (\<lambda>f filesByExtension.
             let extension = fileExtension E (h ! f)
             in if extension \<noteq> [] then mapPush extension f filesByExtension
                else filesByExtension)
       files []"

text \<open>\<open>isConversationWithinLimit(constructPrompt(files, patchBuilder, convoBuilder))\<close>\<close>

definition convoWithinLimit ::
  "env \<Rightarrow> heap \<Rightarrow> (PRFile \<Rightarrow> jsstring) \<Rightarrow> (jsstring \<Rightarrow> conversation) \<Rightarrow> ref list \<Rightarrow> bool" where
  "convoWithinLimit E h patchBuilder convoBuilder files =
     isConversationWithinLimit E (constructPrompt E (map ((!) h) files) patchBuilder convoBuilder)"

text \<open>One step of the greedy loop over a sorted extension group, and the flush after it.\<close>

definition packFile ::
  "(ref list \<Rightarrow> bool) \<Rightarrow> ref \<Rightarrow> ref list list \<times> ref list \<Rightarrow> ref list list \<times> ref list" where
  "packFile fits f st =
     (case st of (processGroups, currentGroup) \<Rightarrow>
        if fits (currentGroup @ [f]) then (processGroups, currentGroup @ [f])
        else (processGroups @ [currentGroup], [f]))"

definition packGroup :: "(ref list \<Rightarrow> bool) \<Rightarrow> ref list \<Rightarrow> ref list list" where
  "packGroup fits filesForExt =
     (case fold (packFile fits) filesForExt ([], []) of
        (processGroups, currentGroup) \<Rightarrow>
          if length currentGroup > 0 then processGroups @ [currentGroup] else processGroups)"

definition processWithinLimitFiles ::
  "env \<Rightarrow> heap \<Rightarrow> ref list \<Rightarrow> (PRFile \<Rightarrow> jsstring) \<Rightarrow> (jsstring \<Rightarrow> conversation) \<Rightarrow> ref list list" where
  "processWithinLimitFiles E h files patchBuilder convoBuilder =
     (let fits = convoWithinLimit E h patchBuilder convoBuilder
      in if \<not> fits files then
           concat (map (\<lambda>(extension, filesForExt).
                          if fits filesForExt then [filesForExt]
                          else packGroup fits
                                 (sort_key (\<lambda>f. patchTokenLength (h ! f)) filesForExt))
                     (groupFilesByExtension E h files))
         else [files])"

text \<open>\<open>files.map((file) => stripRemovedLines(file))\<close>: one new record per file, in order.\<close>

fun stripAll :: "heap \<Rightarrow> ref list \<Rightarrow> ref list \<times> heap" where
  "stripAll h [] = ([], h)"
| "stripAll h (f # fs) =
     (case stripRemovedLines h f of (f', h') \<Rightarrow>
        (case stripAll h' fs of (fs', h'') \<Rightarrow> (f' # fs', h'')))"

definition processOutsideLimitFiles ::
  "env \<Rightarrow> heap \<Rightarrow> ref list \<Rightarrow> (PRFile \<Rightarrow> jsstring) \<Rightarrow> (jsstring \<Rightarrow> conversation)
     \<Rightarrow> ref list list \<times> heap" where
  "processOutsideLimitFiles E h files patchBuilder convoBuilder =
     (if length files = 0 then ([], h)
      else
        (case stripAll h files of (stripped, h') \<Rightarrow>
           (let fits = convoWithinLimit E h' patchBuilder convoBuilder
            in if fits stripped then ([stripped], h')
               else
                 (let withinLimits = filter (\<lambda>f. fits [f]) stripped
                  in (processWithinLimitFiles E h' withinLimits patchBuilder convoBuilder, h')))))"

text \<open>
  The planning phase of \<open>reviewChanges\<close>: filter, write the token length of each surviving
  file onto its record, partition by whether the file fits alone, and plan both parts.
\<close>

definition annotateTokenLength :: "env \<Rightarrow> (PRFile \<Rightarrow> jsstring) \<Rightarrow> ref list \<Rightarrow> heap \<Rightarrow> heap" where
  "annotateTokenLength E patchBuilder filteredFiles h =
     fold (\<lambda>f h. h[f := (h ! f)\<lparr>patchTokenLength := getTokenLength E (patchBuilder (h ! f))\<rparr>])
       filteredFiles h"

definition planGroups ::
  "env \<Rightarrow> heap \<Rightarrow> ref list \<Rightarrow> (jsstring \<Rightarrow> conversation) \<Rightarrow> ref list list \<times> heap" where
  "planGroups E h files convoBuilder =
     (let patchBuilder = buildPatchPrompt E;
          filteredFiles = filter (\<lambda>f. filterPRFile E (h ! f)) files;
          h1 = annotateTokenLength E patchBuilder filteredFiles h;
          fits = convoWithinLimit E h1 patchBuilder convoBuilder;
          patchesWithinModelLimit = filter (\<lambda>f. fits [f]) filteredFiles;
          patchesOutsideModelLimit = filter (\<lambda>f. \<not> fits [f]) filteredFiles;
          withinLimitsPatchGroups =
            processWithinLimitFiles E h1 patchesWithinModelLimit patchBuilder convoBuilder
      in case processOutsideLimitFiles E h1 patchesOutsideModelLimit patchBuilder convoBuilder of
           (exceedingLimitsPatchGroups, h2) \<Rightarrow>
             (withinLimitsPatchGroups @ exceedingLimitsPatchGroups, h2))"

section \<open>Model calls and the review of one strategy\<close>

text \<open>The state a run threads: the object store and the number of model calls issued so far.\<close>

record world =
  store :: heap
  calls :: nat

definition generateChatCompletion ::
  "env \<Rightarrow> conversation \<Rightarrow> bool \<Rightarrow> world \<Rightarrow> (error + ChatMessage) \<times> world" where
  "generateChatCompletion E messages withFunctions w =
     ((case completionsCreate E (calls w) messages withFunctions of
         Inl e \<Rightarrow> Inl e
       | Inr choices \<Rightarrow> (case choices of [] \<Rightarrow> Inl TypeError | message # _ \<Rightarrow> Inr message)),
      w\<lparr>calls := Suc (calls w)\<rparr>)"

definition reviewDiff :: "env \<Rightarrow> conversation \<Rightarrow> world \<Rightarrow> (error + jsstring option) \<times> world" where
  "reviewDiff E messages w =
     (case generateChatCompletion E messages False w of
        (Inl e, w') \<Rightarrow> (Inl e, w')
      | (Inr message, w') \<Rightarrow> (Inr (content message), w'))"

definition reviewFiles ::
  "env \<Rightarrow> ref list \<Rightarrow> (PRFile \<Rightarrow> jsstring) \<Rightarrow> (jsstring \<Rightarrow> conversation) \<Rightarrow> world
     \<Rightarrow> (error + jsstring option) \<times> world" where
  "reviewFiles E files patchBuilder convoBuilder w =
     (let patches = map (\<lambda>f. patchBuilder (store w ! f)) files;
          messages = convoBuilder (js_join NL patches)
      in reviewDiff E messages w)"

text \<open>
  \<open>groups.map(reviewFiles)\<close>: every call is issued, in the order of the groups;
  \<open>Promise.all\<close> then rejects when one of them rejected.
\<close>

fun reviewGroups ::
  "env \<Rightarrow> ref list list \<Rightarrow> (PRFile \<Rightarrow> jsstring) \<Rightarrow> (jsstring \<Rightarrow> conversation) \<Rightarrow> world
     \<Rightarrow> (error + jsstring option) list \<times> world" where
  "reviewGroups E [] patchBuilder convoBuilder w = ([], w)"
| "reviewGroups E (patchGroup # groups) patchBuilder convoBuilder w =
     (case reviewFiles E patchGroup patchBuilder convoBuilder w of (r, w1) \<Rightarrow>
        (case reviewGroups E groups patchBuilder convoBuilder w1 of (rs, w2) \<Rightarrow> (r # rs, w2)))"

definition reviewChanges ::
  "env \<Rightarrow> ref list \<Rightarrow> (jsstring \<Rightarrow> conversation)
     \<Rightarrow> (jsstring option list \<Rightarrow> error + BuilderResponse) \<Rightarrow> world
     \<Rightarrow> (error + BuilderResponse) \<times> world" where
  "reviewChanges E files convoBuilder responseBuilder w =
     (case planGroups E (store w) files convoBuilder of (groups, h2) \<Rightarrow>
        (case reviewGroups E groups (buildPatchPrompt E) convoBuilder (w\<lparr>store := h2\<rparr>) of
           (results, w') \<Rightarrow>
             (case allResults results of
                Inl e \<Rightarrow> (Inl e, w')
              | Inr feedbacks \<Rightarrow> (responseBuilder feedbacks, w'))))"

section \<open>The fallback over strategies\<close>

record Builders =
  convoBuilder :: "jsstring \<Rightarrow> conversation"
  responseBuilder :: "jsstring option list \<Rightarrow> error + BuilderResponse"

fun reviewChangesRetry ::
  "env \<Rightarrow> ref list \<Rightarrow> Builders list \<Rightarrow> world \<Rightarrow> (error + BuilderResponse) \<times> world" where
  "reviewChangesRetry E files [] w = (Inl AllConvoBuildersFailed, w)"
| "reviewChangesRetry E files (b # builders) w =
     (case reviewChanges E files (convoBuilder b) (responseBuilder b) w of
        (Inr r, w') \<Rightarrow> (Inr r, w')
      | (Inl e, w') \<Rightarrow> reviewChangesRetry E files builders w')"

section \<open>Inline fixes\<close>

definition indentCodeFix :: "jsstring option \<Rightarrow> jsstring \<Rightarrow> int \<Rightarrow> error + jsstring" where
  "indentCodeFix contents fix lineStart =
     (case contents of
        None \<Rightarrow> Inl TypeError
      | Some text \<Rightarrow>
          (let fileLines = js_split NL text
           in case js_index fileLines (lineStart - 1) of
                None \<Rightarrow> Inl TypeError
              | Some firstLine \<Rightarrow>
                  (let codeLines = js_split NL fix;
                       indentation = takeWhile isWhiteSpace firstLine;
                       indentedCodeLines = map (\<lambda>line. indentation @ line) codeLines
                   in Inr (js_join NL indentedCodeLines))))"

definition isCodeSuggestionNew :: "jsstring option \<Rightarrow> CodeSuggestion \<Rightarrow> error + bool" where
  "isCodeSuggestionNew contents suggestion =
     (case contents of
        None \<Rightarrow> Inl TypeError
      | Some text \<Rightarrow>
          (let fileLines = js_split NL text;
               targetLines =
                 js_join NL (js_slice fileLines (line_start suggestion - 1) (line_end suggestion))
           in if js_trim targetLines = js_trim (correction suggestion) then Inr False
              else Inr True))"

text \<open>What \<open>generateInlineComments\<close> does with the message of the completion.\<close>

definition inlineFixOf :: "env \<Rightarrow> PRSuggestion \<Rightarrow> PRFile \<Rightarrow> ChatMessage \<Rightarrow> CodeSuggestion option" where
  "inlineFixOf E suggestion f message =
     (case function_call message of
        None \<Rightarrow> None
      | Some arguments \<Rightarrow>
          (case JSON_parse E arguments of
             Inl e \<Rightarrow> None
           | Inr args \<Rightarrow>
               (case indentCodeFix (current_contents f) (arg_code args) (arg_lineStart args) of
                  Inl e \<Rightarrow> None
                | Inr indentedCode \<Rightarrow>
                    (let codeFix =
                           \<lparr>cs_file = PRSuggestion.filename suggestion,
                            line_start = arg_lineStart args,
                            line_end = arg_lineEnd args,
                            correction = indentedCode,
                            comment = arg_comment args\<rparr>
                     in case isCodeSuggestionNew (current_contents f) codeFix of
                          Inr True \<Rightarrow> Some codeFix
                        | _ \<Rightarrow> None))))"

definition generateInlineComments ::
  "env \<Rightarrow> PRSuggestion \<Rightarrow> ref \<Rightarrow> world \<Rightarrow> CodeSuggestion option \<times> world" where
  "generateInlineComments E suggestion f w =
     (let messages = getInlineFixPrompt E (current_contents (store w ! f)) suggestion
      in case generateChatCompletion E messages True w of
           (Inl e, w') \<Rightarrow> (None, w')
         | (Inr message, w') \<Rightarrow> (inlineFixOf E suggestion (store w ! f) message, w'))"

section \<open>The whole review\<close>

definition preprocessFile :: "env \<Rightarrow> Payload \<Rightarrow> ref \<Rightarrow> world \<Rightarrow> (error + unit) \<times> world" where
  "preprocessFile E payload f w =
     (let baseBranch =
            \<lparr>name = base_ref payload, sha = base_sha payload, url = pull_request_url payload\<rparr>;
          currentBranch =
            \<lparr>name = head_ref payload, sha = head_sha payload, url = pull_request_url payload\<rparr>
      in case getGitFile E baseBranch (PRFile.filename (store w ! f)) of
           Inl e \<Rightarrow> (Inl e, w)
         | Inr oldContents \<Rightarrow>
             (case getGitFile E currentBranch (PRFile.filename (store w ! f)) of
                Inl e \<Rightarrow> (Inl e, w)
              | Inr currentContents \<Rightarrow>
                  (Inr (),
                   w\<lparr>store := (store w)
                        [f := (store w ! f)\<lparr>old_contents := oldContents,
                                            current_contents := currentContents\<rparr>]\<rparr>)))"

fun preprocessAll :: "env \<Rightarrow> Payload \<Rightarrow> ref list \<Rightarrow> world \<Rightarrow> (error + unit) list \<times> world" where
  "preprocessAll E payload [] w = ([], w)"
| "preprocessAll E payload (f # fs) w =
     (case preprocessFile E payload f w of (r, w1) \<Rightarrow>
        (case preprocessAll E payload fs w1 of (rs, w2) \<Rightarrow> (r # rs, w2)))"

fun inlineAll ::
  "env \<Rightarrow> ref list \<Rightarrow> PRSuggestion list \<Rightarrow> world \<Rightarrow> CodeSuggestion option list \<times> world" where
  "inlineAll E files [] w = ([], w)"
| "inlineAll E files (suggestion # rest) w =
     (case (case find (\<lambda>f. PRFile.filename (store w ! f) = PRSuggestion.filename suggestion) files of
              None \<Rightarrow> (None, w)
            | Some f \<Rightarrow> generateInlineComments E suggestion f w) of
        (c, w1) \<Rightarrow> (case inlineAll E files rest w1 of (cs, w2) \<Rightarrow> (c # cs, w2)))"

definition processPullRequest ::
  "env \<Rightarrow> Payload \<Rightarrow> ref list \<Rightarrow> bool \<Rightarrow> world \<Rightarrow> (error + Review) \<times> world" where
  "processPullRequest E payload files includeSuggestions w =
     (let filteredFiles = filter (\<lambda>f. filterPRFile E (store w ! f)) files
      in if length filteredFiles = 0 then (Inr \<lparr>review = None, suggestions = []\<rparr>, w)
         else
           (case preprocessAll E payload filteredFiles w of (fetched, w1) \<Rightarrow>
              (case allResults fetched of
                 Inl e \<Rightarrow> (Inl e, w1)
               | Inr _ \<Rightarrow>
                   (let owner = owner_login payload;
                        repoName = repository_name payload
                    in case reviewChangesRetry E filteredFiles
                              [\<lparr>convoBuilder = getXMLReviewPrompt E,
                                responseBuilder = curriedXmlResponseBuilder E owner repoName\<rparr>,
                               \<lparr>convoBuilder = getReviewPrompt E,
                                responseBuilder = basicResponseBuilder\<rparr>] w1 of
                         (Inl e, w2) \<Rightarrow> (Inl e, w2)
                       | (Inr reviewComments, w2) \<Rightarrow>
                           (if includeSuggestions then
                              (case (if length (structuredComments reviewComments) > 0
                                     then inlineAll E files (structuredComments reviewComments) w2
                                     else ([], w2)) of
                                 (inlineComments, w3) \<Rightarrow>
                                   (Inr \<lparr>review = Some reviewComments,
                                         suggestions =
                                           map the (filter (\<lambda>c. c \<noteq> None) inlineComments)\<rparr>,
                                    w3))
                            else (Inr \<lparr>review = Some reviewComments, suggestions = []\<rparr>, w2))))))"

section \<open>Concrete inputs\<close>

text \<open>A file record with a name and a patch, and nothing fetched or measured yet.\<close>

definition mkFile :: "string \<Rightarrow> string \<Rightarrow> PRFile" where
  "mkFile fname p =
     \<lparr>PRFile.filename = js fname, patch = js p, patchTokenLength = 0, old_contents = None,
      current_contents = None\<rparr>"

text \<open>
  A sample environment to run the model on concrete inputs: lower-casing of the ASCII
  letters, a conversation made of the joined patches, a budget on the length of its text,
  and collaborators that fail until a run replaces them.
\<close>

definition asciiLower :: "jsstring \<Rightarrow> jsstring" where
  "asciiLower s = map (\<lambda>c. if 0x41 \<le> c \<and> c \<le> 0x5A then c + 0x20 else c) s"

definition budgetEnv :: "nat \<Rightarrow> env" where
  "budgetEnv limit =
     \<lparr>toLowerCase = asciiLower,
      isConversationWithinLimit = (\<lambda>conv. sum_list (map (\<lambda>m. length (snd m)) conv) \<le> limit),
      constructPrompt = (\<lambda>files patchBuilder convoBuilder.
                           convoBuilder (js_join NL (map patchBuilder files))),
      buildPatchPrompt = patch,
      getTokenLength = (\<lambda>s. int (length s)),
      getXMLReviewPrompt = (\<lambda>diff. [(js ''user'', diff)]),
      getReviewPrompt = (\<lambda>diff. [(js ''user'', diff)]),
      PR_SUGGESTION_TEMPLATE = js ''{COMMENT} {CODE} {ISSUE_LINK}'',
      identity = (\<lambda>s. PRSuggestion.filename s @ js '':'' @ describe s @ js '':'' @ code s),
      getInlineFixPrompt = (\<lambda>contents s. [(js ''user'', PRSuggestion.comment s)]),
      completionsCreate = (\<lambda>n conv withFunctions. Inl Rejected),
      parseStringPromise = (\<lambda>s. Inl SyntaxError),
      JSON_parse = (\<lambda>s. Inl SyntaxError),
      getGitFile = (\<lambda>branch path. Inr None)\<rparr>"

text \<open>A parsed document that holds the same suggestion twice.\<close>

definition rawTwice :: "RawSuggestion list" where
  "rawTwice =
     (let r = \<lparr>raw_describe = Some (js ''d''), raw_type = Some (js ''t''),
               raw_comment = Some (js ''c''), raw_code = Some (js ''x''),
               raw_filename = Some (js ''a.ts'')\<rparr>
      in [r, r])"

definition parsedOnce :: PRSuggestion where
  "parsedOnce =
     \<lparr>describe = js ''d'', type = js ''t'', comment = js ''c'', code = js ''x'',
      filename = js ''a.ts''\<rparr>"

definition twiceEnv :: env where
  "twiceEnv = (budgetEnv 0)\<lparr>parseStringPromise := (\<lambda>s. Inr (Some rawTwice))\<rparr>"

text \<open>
  Two stores: three files, the third too large until its deleted lines are stripped; and two
  files, the first with a name that ends in a dot.
\<close>

definition threeFiles :: heap where
  "threeFiles =
     [mkFile ''a.ts'' ''+x'', mkFile ''b.ts'' ''+y'', mkFile ''c.py'' ''-aaaaaaa\<newline>+z'']"

definition dotFiles :: heap where
  "dotFiles = [mkFile ''a.'' ''+x'', mkFile ''b.ts'' ''+y'']"

section \<open>Notions the statements about the fallback and the inline fix use\<close>

text \<open>
  The world in which the \<open>i\<close>-th pair of a fallback runs, every earlier pair having run, and
  the outcome of its run there.
\<close>

definition worldBefore :: "env \<Rightarrow> ref list \<Rightarrow> Builders list \<Rightarrow> world \<Rightarrow> nat \<Rightarrow> world" where
  "worldBefore E files builders w i =
     fold (\<lambda>b w. snd (reviewChanges E files (convoBuilder b) (responseBuilder b) w))
       (take i builders) w"

definition pairRun ::
  "env \<Rightarrow> ref list \<Rightarrow> Builders list \<Rightarrow> world \<Rightarrow> nat \<Rightarrow> error + BuilderResponse" where
  "pairRun E files builders w i =
     fst (reviewChanges E files (convoBuilder (builders ! i)) (responseBuilder (builders ! i))
            (worldBefore E files builders w i))"


text \<open>
  Sample runs: a model that answers every review with the text \<open>ok\<close>; a model that proposes
  for line 2 the code that is already there; and a store whose files the filter rejects.
\<close>

definition answeringEnv :: env where
  "answeringEnv =
     (budgetEnv 4)\<lparr>completionsCreate :=
        (\<lambda>n conv withFunctions. Inr [\<lparr>content = Some (js ''ok''), function_call = None\<rparr>])\<rparr>"



definition ignoredFiles :: heap where
  "ignoredFiles =
     [mkFile ''README.md'' ''+x'', mkFile ''src/package.json'' ''+y'', mkFile ''Makefile'' ''+z'']"

definition samplePayload :: Payload where
  "samplePayload =
     \<lparr>owner_login = js ''octo'', repository_name = js ''repo'', base_ref = js ''main'',
      base_sha = js ''0'', head_ref = js ''topic'', head_sha = js ''1'',
      pull_request_url = js ''u''\<rparr>"

text \<open>The two strategies of \<open>processPullRequest\<close>, for a repository \<open>octo/repo\<close>.\<close>

definition bothStrategies :: "env \<Rightarrow> Builders list" where
  "bothStrategies E =
     [\<lparr>convoBuilder = getXMLReviewPrompt E,
       responseBuilder = curriedXmlResponseBuilder E (js ''octo'') (js ''repo'')\<rparr>,
      \<lparr>convoBuilder = getReviewPrompt E, responseBuilder = basicResponseBuilder\<rparr>]"

section \<open>Facts about split and join\<close>

lemma js_split_single_Nil [simp]: "js_split [c] [] = [[]]"
  by simp

lemma js_split_single_Cons:
  "js_split [c] (x # xs) =
     (if x = c then [] # js_split [c] xs
      else (case js_split [c] xs of [] \<Rightarrow> [[x]] | l # ls \<Rightarrow> (x # l) # ls))"
  by simp

lemma js_split_nonempty: "sep \<noteq> [] \<Longrightarrow> js_split sep s \<noteq> []"
  by (induction sep s rule: js_split.induct) (auto split: list.splits)

lemma js_split_single_no_sep: "l \<in> set (js_split [c] s) \<Longrightarrow> c \<notin> set l"
proof (induction s arbitrary: l)
  case Nil
  then show ?case by simp
next
  case (Cons x xs)
  show ?case
  proof (cases "x = c")
    case True
    with Cons show ?thesis by auto
  next
    case False
    obtain k ks where ks: "js_split [c] xs = k # ks"
      using js_split_nonempty [of "[c]" xs] by (cases "js_split [c] xs") auto
    with False Cons.prems have "l = x # k \<or> l \<in> set ks" by auto
    then show ?thesis
    proof
      assume "l = x # k"
      moreover have "c \<notin> set k" using Cons.IH [of k] ks by simp
      ultimately show ?thesis using False by auto
    next
      assume "l \<in> set ks"
      then show ?thesis using Cons.IH [of l] ks by simp
    qed
  qed
qed

lemma js_join_Cons: "ls \<noteq> [] \<Longrightarrow> js_join sep (l # ls) = l @ sep @ js_join sep ls"
  by (cases ls) auto

lemma js_split_single_free: "c \<notin> set l \<Longrightarrow> js_split [c] l = [l]"
  by (induction l) auto

lemma js_split_single_append:
  "c \<notin> set l \<Longrightarrow> js_split [c] (l @ c # rest) = l # js_split [c] rest"
  by (induction l) auto

lemma js_split_join_single:
  "ls \<noteq> [] \<Longrightarrow> \<forall>l \<in> set ls. c \<notin> set l \<Longrightarrow> js_split [c] (js_join [c] ls) = ls"
proof (induction ls)
  case Nil
  then show ?case by simp
next
  case (Cons l ls)
  show ?case
  proof (cases "ls = []")
    case True
    with Cons.prems show ?thesis by (simp add: js_split_single_free)
  next
    case False
    with Cons have "js_split [c] (js_join [c] ls) = ls" by simp
    with False Cons.prems show ?thesis
      by (simp add: js_join_Cons js_split_single_append)
  qed
qed

lemma js_join_split_single: "js_join [c] (js_split [c] s) = s"
proof (induction s)
  case Nil
  then show ?case by simp
next
  case (Cons x xs)
  obtain k ks where ks: "js_split [c] xs = k # ks"
    using js_split_nonempty [of "[c]" xs] by (cases "js_split [c] xs") auto
  show ?case
  proof (cases "x = c")
    case True
    with Cons ks show ?thesis by (simp add: js_join_Cons)
  next
    case False
    with Cons ks show ?thesis by (cases ks) auto
  qed
qed

lemma strippedPatch_idem: "strippedPatch (strippedPatch p) = strippedPatch p"
proof -
  define keep where "keep = (\<lambda>line :: jsstring. \<not> startsWith line (js ''-''))"
  define ls where "ls = filter keep (js_split NL p)"
  have sp: "strippedPatch p = js_join NL ls"
    by (simp add: strippedPatch_def ls_def keep_def)
  have nonl: "\<forall>l \<in> set ls. 0x0A \<notin> set l"
    using js_split_single_no_sep [of _ "0x0A" p] by (auto simp: ls_def)
  have keep_Nil: "keep []"
    by (simp add: keep_def startsWith_def js_def)
  show ?thesis
  proof (cases "ls = []")
    case True
    then have "strippedPatch p = []" by (simp add: sp)
    moreover have "strippedPatch [] = []"
      using keep_Nil by (simp add: strippedPatch_def keep_def)
    ultimately show ?thesis by simp
  next
    case False
    then have "js_split NL (js_join NL ls) = ls"
      using nonl by (rule js_split_join_single)
    moreover have "filter keep ls = ls" by (simp add: ls_def)
    ultimately have "strippedPatch (js_join NL ls) = js_join NL ls"
      by (simp add: strippedPatch_def keep_def)
    then show ?thesis by (simp add: sp)
  qed
qed

lemma strippedPatch_fixed:
  "\<forall>line \<in> set (js_split NL p). \<not> startsWith line (js ''-'') \<Longrightarrow> strippedPatch p = p"
  by (simp add: strippedPatch_def js_join_split_single)

section \<open>Deletion stripping is idempotent\<close>

text \<open>
  Claim C9. Stripping the deleted lines of a file whose patch holds no line beginning with
  \<open>-\<close> gives a record with the same patch text, and stripping the result of
  \<open>stripRemovedLines\<close> once more gives the same patch text as stripping once.
\<close>

theorem stripRemovedLines_idempotent:
  "((\<forall>line \<in> set (js_split NL (patch (h ! f))). \<not> startsWith line (js ''-'')) \<longrightarrow>
      patch (snd (stripRemovedLines h f) ! fst (stripRemovedLines h f)) = patch (h ! f))
   \<and> (let (f1, h1) = stripRemovedLines h f; (f2, h2) = stripRemovedLines h1 f1
      in patch (h2 ! f2) = patch (h1 ! f1))"
  by (simp add: stripRemovedLines_def alloc_def strippedPatch_idem strippedPatch_fixed)

theorem stripRemovedLines_idempotent_witness:
  "patch (snd (stripRemovedLines [mkFile ''a.ts'' ''+x\<newline> y''] 0)
            ! fst (stripRemovedLines [mkFile ''a.ts'' ''+x\<newline> y''] 0))
     = patch ([mkFile ''a.ts'' ''+x\<newline> y''] ! 0)"
proof -
  have "\<forall>line \<in> set (js_split NL (patch ([mkFile ''a.ts'' ''+x\<newline> y''] ! 0))).
          \<not> startsWith line (js ''-'')"
    by (simp add: mkFile_def js_def startsWith_def)
  with stripRemovedLines_idempotent [of "[mkFile ''a.ts'' ''+x\<newline> y'']" 0]
  show ?thesis by blast
qed

section \<open>Deduplication is last-write-wins\<close>

lemma mapSet_keys:
  "map fst (mapSet k v m) = (if k \<in> fst ` set m then map fst m else map fst m @ [k])"
  by (induction m) (auto simp: rev_image_eqI)

lemma map_of_mapSet: "map_of (mapSet k v m) = (map_of m)(k \<mapsto> v)"
  by (induction m) (auto simp: fun_eq_iff)

lemma set_mapSet: "set (mapSet k v m) \<subseteq> insert (k, v) (set m)"
  by (induction m) (auto split: if_splits)

lemma fold_mapSet_inv:
  "distinct (map fst m) \<Longrightarrow> \<forall>(k, v) \<in> set m. key v = k \<Longrightarrow>
   distinct (map fst (fold (\<lambda>s m. mapSet (key s) s m) ss m))
   \<and> (\<forall>(k, v) \<in> set (fold (\<lambda>s m. mapSet (key s) s m) ss m). key v = k)"
proof (induction ss arbitrary: m)
  case Nil
  then show ?case by simp
next
  case (Cons s ss)
  have "distinct (map fst (mapSet (key s) s m))"
    using Cons.prems(1) by (simp add: mapSet_keys)
  moreover have "\<forall>(k, v) \<in> set (mapSet (key s) s m). key v = k"
    using Cons.prems(2) set_mapSet [of "key s" s m] by auto
  ultimately show ?case using Cons.IH by simp
qed

lemma fold_mapSet_lookup:
  "map_of (fold (\<lambda>s m. mapSet (key s) s m) ss m) k =
     (case filter (\<lambda>s. key s = k) ss of [] \<Rightarrow> map_of m k | x # xs \<Rightarrow> Some (last (x # xs)))"
proof (induction ss arbitrary: m)
  case Nil
  then show ?case by simp
next
  case (Cons s ss)
  show ?case
    by (cases "filter (\<lambda>s. key s = k) ss") (auto simp: Cons.IH map_of_mapSet)
qed

lemma filter_values:
  "distinct (map fst m) \<Longrightarrow> \<forall>(k, v) \<in> set m. key v = k \<Longrightarrow>
   filter (\<lambda>s. key s = k) (map snd m) = (case map_of m k of None \<Rightarrow> [] | Some v \<Rightarrow> [v])"
proof (induction m)
  case Nil
  then show ?case by simp
next
  case (Cons p m)
  obtain k' v' where p: "p = (k', v')" by (cases p)
  have kv: "key v' = k'" using Cons.prems(2) p by simp
  show ?case
  proof (cases "k' = k")
    case True
    then have "k \<notin> fst ` set m" using Cons.prems(1) p by auto
    then have "map_of m k = None" by (simp add: map_of_eq_None_iff)
    moreover have "filter (\<lambda>s. key s = k) (map snd m) = []"
    proof -
      have "\<forall>q \<in> set m. key (snd q) \<noteq> k"
        using Cons.prems(2) \<open>k \<notin> fst ` set m\<close> by force
      then show ?thesis by (simp add: filter_empty_conv)
    qed
    ultimately show ?thesis using True p kv by simp
  next
    case False
    with Cons p kv show ?thesis by simp
  qed
qed

text \<open>
  Claim C8. For every key, the output of \<open>dedupSuggestions\<close> holds exactly one suggestion
  with that key when the input holds one, and it is the last suggestion of the input with
  that key; it holds none otherwise. In particular, of two suggestions \<open>a\<close> then \<open>b\<close> with
  equal keys the output is exactly \<open>b\<close>.
\<close>

theorem dedupSuggestions_last_write_wins:
  "filter (\<lambda>s. identity E s = k) (dedupSuggestions E ss) =
     (if k \<in> identity E ` set ss then [last (filter (\<lambda>s. identity E s = k) ss)] else [])
   \<and> dedupSuggestions E [a, b] = (if identity E a = identity E b then [b] else [a, b])"
proof
  let ?m = "fold (\<lambda>s m. mapSet (identity E s) s m) ss []"
  have inv: "distinct (map fst ?m) \<and> (\<forall>(k, v) \<in> set ?m. identity E v = k)"
    by (rule fold_mapSet_inv) simp_all
  have "filter (\<lambda>s. identity E s = k) (map snd ?m) =
          (case map_of ?m k of None \<Rightarrow> [] | Some v \<Rightarrow> [v])"
    using inv by (intro filter_values) blast+
  also have "\<dots> = (case filter (\<lambda>s. identity E s = k) ss of [] \<Rightarrow> [] | x # xs \<Rightarrow> [last (x # xs)])"
    by (simp add: fold_mapSet_lookup split: list.splits)
  also have "\<dots> = (if k \<in> identity E ` set ss then [last (filter (\<lambda>s. identity E s = k) ss)] else [])"
  proof (cases "filter (\<lambda>s. identity E s = k) ss")
    case Nil
    then have "k \<notin> identity E ` set ss" by (auto simp: filter_empty_conv)
    with Nil show ?thesis by simp
  next
    case (Cons x xs)
    then have "x \<in> set (filter (\<lambda>s. identity E s = k) ss)" by simp
    then have "k \<in> identity E ` set ss" by auto
    with Cons show ?thesis by simp
  qed
  finally show "filter (\<lambda>s. identity E s = k) (dedupSuggestions E ss) =
     (if k \<in> identity E ` set ss then [last (filter (\<lambda>s. identity E s = k) ss)] else [])"
    by (simp add: dedupSuggestions_def)
next
  show "dedupSuggestions E [a, b] = (if identity E a = identity E b then [b] else [a, b])"
    by (simp add: dedupSuggestions_def)
qed

section \<open>The issue link and its length\<close>

lemma encodeURIComponent_unreserved:
  "\<forall>c \<in> set s. uriUnreserved c \<Longrightarrow> encodeURIComponent s = Inr s"
  by (induction s) auto

lemma encodeURIComponent_letters: "encodeURIComponent (replicate n 0x61) = Inr (replicate n 0x61)"
  by (rule encodeURIComponent_unreserved) (simp add: uriUnreserved_def)

lemma encodeURIComponent_unreserved_append:
  "\<forall>c \<in> set s. uriUnreserved c \<Longrightarrow>
   encodeURIComponent (s @ r) = (case encodeURIComponent r of Inl e \<Rightarrow> Inl e | Inr r' \<Rightarrow> Inr (s @ r'))"
  by (induction s) (auto split: sum.splits)

lemma encodeURIComponent_newline:
  "encodeURIComponent (0x0A # r) =
     (case encodeURIComponent r of Inl e \<Rightarrow> Inl e | Inr r' \<Rightarrow> Inr (js ''%0A'' @ r'))"
  by (simp add: js_def uriUnreserved_def isLowSurrogate_def isHighSurrogate_def utf8_def
      percentEncode_def hexDigit_def split: sum.splits)

lemma encode_nl: "encodeURIComponent (NL @ js ''c'' @ NL) = Inr (js ''%0Ac%0A'')"
  by (simp add: js_def uriUnreserved_def isLowSurrogate_def isHighSurrogate_def utf8_def
      percentEncode_def hexDigit_def)

lemma issueUrl_Inr:
  assumes "encodeURIComponent title = Inr t" and "encodeURIComponent body = Inr b"
    and "encodedCodeBlockOf codeblock = Inr c"
  shows "issueUrl owner repoName title body codeblock =
           Inr (if length (newIssueLink owner repoName t b @ c) > 2048
                then newIssueLink owner repoName t b
                else newIssueLink owner repoName t b @ c)"
  using assms by (simp add: issueUrl_def Let_def)

text \<open>
  Claim C4, as stated, fails: the link is not always at most 2048 characters long. With a
  title of 2048 letters the fully-populated link is too long, the code block is dropped,
  and the link that remains still has 2101 characters.
\<close>

theorem generateGithubIssueUrl_counterexample:
  "generateGithubIssueUrl (js ''octo'') (js ''repo'') (replicate 2048 0x61) (js ''b'')
       (Some (js ''c''))
     = Inr (js ''[Create Issue](https://github.com/octo/repo/issues/new?title=''
            @ replicate 2048 0x61 @ js ''&body=b)'')
   \<and> length (js ''https://github.com/octo/repo/issues/new?title=''
            @ replicate 2048 0x61 @ js ''&body=b'') = 2101"
proof -
  have b: "encodeURIComponent (js ''b'') = Inr (js ''b'')"
    by (rule encodeURIComponent_unreserved) (simp add: js_def uriUnreserved_def)
  have c: "encodedCodeBlockOf (Some (js ''c'')) = Inr (js ''%0Ac%0A'')"
    using encode_nl by (simp add: encodedCodeBlockOf_def js_def)
  have "issueUrl (js ''octo'') (js ''repo'') (replicate 2048 0x61) (js ''b'') (Some (js ''c''))
          = Inr (js ''https://github.com/octo/repo/issues/new?title=''
                 @ replicate 2048 0x61 @ js ''&body=b'')"
    unfolding issueUrl_Inr [OF encodeURIComponent_letters b c]
    by (simp add: newIssueLink_def js_def)
  then show ?thesis
    by (simp add: generateGithubIssueUrl_def js_def)
qed

text \<open>
  Claim C4, amended. When the title, the body and the code block encode, the link that
  \<open>generateGithubIssueUrl\<close> renders is the fully-populated one if that has at most 2048
  characters and the link without the code block otherwise; so it has at most 2048
  characters whenever the link without the code block has.
\<close>

theorem issueUrl_drops_code_block:
  assumes "encodeURIComponent title = Inr t" and "encodeURIComponent body = Inr b"
    and "encodedCodeBlockOf codeblock = Inr c"
  shows "issueUrl owner repoName title body codeblock =
           Inr (if length (newIssueLink owner repoName t b @ c) > 2048
                then newIssueLink owner repoName t b
                else newIssueLink owner repoName t b @ c)
         \<and> (\<exists>u. issueUrl owner repoName title body codeblock = Inr u
                \<and> generateGithubIssueUrl owner repoName title body codeblock
                    = Inr (js ''[Create Issue]('' @ u @ js '')''))
         \<and> (length (newIssueLink owner repoName t b) \<le> 2048 \<longrightarrow>
              (\<forall>u. issueUrl owner repoName title body codeblock = Inr u \<longrightarrow> length u \<le> 2048))"
  by (simp add: issueUrl_Inr [OF assms] generateGithubIssueUrl_def)

theorem issueUrl_drops_code_block_witness:
  "issueUrl (js ''octo'') (js ''repo'') (js ''t'') (js ''b'') (Some (replicate 2100 0x61))
     = Inr (js ''https://github.com/octo/repo/issues/new?title=t&body=b'')"
proof -
  have t: "encodeURIComponent (js ''t'') = Inr (js ''t'')"
    by (rule encodeURIComponent_unreserved) (simp add: js_def uriUnreserved_def)
  have b: "encodeURIComponent (js ''b'') = Inr (js ''b'')"
    by (rule encodeURIComponent_unreserved) (simp add: js_def uriUnreserved_def)
  have "encodeURIComponent (NL @ replicate 2100 0x61 @ NL) =
          Inr (js ''%0A'' @ replicate 2100 0x61 @ js ''%0A'')"
    by (simp del: encodeURIComponent.simps(2)
        add: encodeURIComponent_newline encodeURIComponent_unreserved_append uriUnreserved_def)
  then have c: "encodedCodeBlockOf (Some (replicate 2100 0x61)) =
          Inr (js ''%0A'' @ replicate 2100 0x61 @ js ''%0A'')"
    by (simp add: encodedCodeBlockOf_def)
  have "issueUrl (js ''octo'') (js ''repo'') (js ''t'') (js ''b'') (Some (replicate 2100 0x61))
     = Inr (if length (newIssueLink (js ''octo'') (js ''repo'') (js ''t'') (js ''b'')
                        @ js ''%0A'' @ replicate 2100 0x61 @ js ''%0A'') > 2048
            then newIssueLink (js ''octo'') (js ''repo'') (js ''t'') (js ''b'')
            else newIssueLink (js ''octo'') (js ''repo'') (js ''t'') (js ''b'')
                        @ js ''%0A'' @ replicate 2100 0x61 @ js ''%0A'')"
    using issueUrl_drops_code_block [OF t b c, of "js ''octo''" "js ''repo''"] by blast
  then show ?thesis
    by (simp add: newIssueLink_def js_def)
qed

section \<open>The structured list handed downstream\<close>

lemma trimCode_x: "trimCode (js ''x'') = js ''x''"
  by (simp add: trimCode_def js_trim_def js_def isWhiteSpace_def)

lemma toSuggestion_raw: "allResults (map toSuggestion rawTwice) = Inr [parsedOnce, parsedOnce]"
  by (simp add: rawTwice_def toSuggestion_def trimCode_x parsedOnce_def Let_def)

lemma enc_c: "encodeURIComponent (js ''c'') = Inr (js ''c'')"
    by (rule encodeURIComponent_unreserved) (simp add: js_def uriUnreserved_def)
lemma enc_d: "encodeURIComponent (js ''d'') = Inr (js ''d'')"
    by (rule encodeURIComponent_unreserved) (simp add: js_def uriUnreserved_def)
lemma enc_x: "encodedCodeBlockOf (Some (js ''x'')) = Inr (js ''%0Ax%0A'')"
  by (simp add: encodedCodeBlockOf_def js_def uriUnreserved_def isLowSurrogate_def
      isHighSurrogate_def utf8_def percentEncode_def hexDigit_def)

lemma render_once:
  "renderSuggestion (budgetEnv 0) (js ''octo'') (js ''repo'') parsedOnce =
     Inr (js ''c x [Create Issue](https://github.com/octo/repo/issues/new?title=d&body=c%0Ax%0A)'')"
  unfolding renderSuggestion_def generateGithubIssueUrl_def parsedOnce_def
  apply (simp add: issueUrl_Inr [OF enc_d enc_c enc_x])
  apply (simp add: newIssueLink_def budgetEnv_def js_replace_def js_def)
  done

lemma convert_once:
  "convertPRSuggestionToComment (budgetEnv 0) (js ''octo'') (js ''repo'') [parsedOnce] =
     Inr [js ''## a.ts'' @ NL @ NL
          @ js ''c x [Create Issue](https://github.com/octo/repo/issues/new?title=d&body=c%0Ax%0A)'']"
  unfolding convertPRSuggestionToComment_def
  by (simp add: mapPush_def render_once) (simp add: js_def parsedOnce_def)

lemma render_twiceEnv: "renderSuggestion twiceEnv = renderSuggestion (budgetEnv 0)"
  by (simp add: fun_eq_iff renderSuggestion_def twiceEnv_def split: sum.splits)

lemma twiceEnv_budgetEnv:
  "convertPRSuggestionToComment twiceEnv = convertPRSuggestionToComment (budgetEnv 0)"
  by (simp add: fun_eq_iff convertPRSuggestionToComment_def render_twiceEnv)

text \<open>
  Claim C3 does not hold of the code: \<open>xmlResponseBuilder\<close> deduplicates the suggestions it
  renders into the comment, but the \<open>structuredComments\<close> it returns is the parsed list
  itself. When the parsed document holds the same suggestion twice, the list handed
  downstream holds it twice, so two entries share one identity key.
\<close>

theorem xmlResponseBuilder_keeps_duplicates:
  "map_sum id structuredComments
     (xmlResponseBuilder twiceEnv (js ''octo'') (js ''repo'') [Some (js ''<review></review>'')])
     = Inr [parsedOnce, parsedOnce]
   \<and> \<not> distinct (map (identity twiceEnv) [parsedOnce, parsedOnce])"
proof -
  have "processXMLSuggestions twiceEnv [Some (js ''<review></review>'')]
          = Inr [parsedOnce, parsedOnce]"
    by (simp add: processXMLSuggestions_def toSuggestion_raw twiceEnv_def)
  moreover have "dedupSuggestions twiceEnv [parsedOnce, parsedOnce] = [parsedOnce]"
    by (simp add: dedupSuggestions_def)
  ultimately show ?thesis
    by (simp add: xmlResponseBuilder_def twiceEnv_budgetEnv convert_once)
qed

section \<open>Facts about the batch planner\<close>

subsection \<open>Greedy packing\<close>

lemma fold_packFile_concat:
  "(case fold (packFile fits) xs (gs, cur) of (gs', cur') \<Rightarrow> concat gs' @ cur')
     = concat gs @ cur @ xs"
proof (induction xs arbitrary: gs cur)
  case Nil
  then show ?case by simp
next
  case (Cons x xs)
  show ?case
  proof (cases "fits (cur @ [x])")
    case True
    then have "fold (packFile fits) (x # xs) (gs, cur) = fold (packFile fits) xs (gs, cur @ [x])"
      by (simp add: packFile_def)
    then show ?thesis using Cons.IH [of gs "cur @ [x]"] by simp
  next
    case False
    then have "fold (packFile fits) (x # xs) (gs, cur) = fold (packFile fits) xs (gs @ [cur], [x])"
      by (simp add: packFile_def)
    then show ?thesis using Cons.IH [of "gs @ [cur]" "[x]"] by simp
  qed
qed

lemma concat_packGroup: "concat (packGroup fits xs) = xs"
proof -
  obtain gs cur where r: "fold (packFile fits) xs ([], []) = (gs, cur)"
    by (cases "fold (packFile fits) xs ([], [])")
  have "concat gs @ cur = xs"
    using fold_packFile_concat [of fits xs "[]" "[]"] r by simp
  then show ?thesis by (auto simp: packGroup_def r)
qed

lemma fold_packFile_fits:
  assumes "\<forall>x \<in> set xs. fits [x]" and "\<forall>g \<in> set gs. fits g" and "cur = [] \<or> fits cur"
  shows "case fold (packFile fits) xs (gs, cur) of
           (gs', cur') \<Rightarrow> (\<forall>g \<in> set gs'. fits g) \<and> (cur' = [] \<or> fits cur')"
  using assms
proof (induction xs arbitrary: gs cur)
  case Nil
  then show ?case by simp
next
  case (Cons x xs)
  have x: "fits [x]" using Cons.prems(1) by simp
  show ?case
  proof (cases "fits (cur @ [x])")
    case True
    then have "fold (packFile fits) (x # xs) (gs, cur) = fold (packFile fits) xs (gs, cur @ [x])"
      by (simp add: packFile_def)
    moreover have "case fold (packFile fits) xs (gs, cur @ [x]) of
           (gs', cur') \<Rightarrow> (\<forall>g \<in> set gs'. fits g) \<and> (cur' = [] \<or> fits cur')"
      using Cons.prems True by (intro Cons.IH) auto
    ultimately show ?thesis by simp
  next
    case False
    then have "fold (packFile fits) (x # xs) (gs, cur) = fold (packFile fits) xs (gs @ [cur], [x])"
      by (simp add: packFile_def)
    moreover have "cur \<noteq> []" using False x by auto
    then have "fits cur" using Cons.prems(3) by simp
    then have "case fold (packFile fits) xs (gs @ [cur], [x]) of
           (gs', cur') \<Rightarrow> (\<forall>g \<in> set gs'. fits g) \<and> (cur' = [] \<or> fits cur')"
      using Cons.prems x by (intro Cons.IH) auto
    ultimately show ?thesis by simp
  qed
qed

lemma packGroup_fits:
  assumes "\<forall>x \<in> set xs. fits [x]"
  shows "\<forall>g \<in> set (packGroup fits xs). fits g"
proof -
  obtain gs cur where r: "fold (packFile fits) xs ([], []) = (gs, cur)"
    by (cases "fold (packFile fits) xs ([], [])")
  have "(\<forall>g \<in> set gs. fits g) \<and> (cur = [] \<or> fits cur)"
    using fold_packFile_fits [OF assms, of "[]" "[]"] r by simp
  then show ?thesis by (auto simp: packGroup_def r)
qed

subsection \<open>Grouping by extension\<close>

lemma mset_mapSet_append:
  "map_of m k = Some vs \<Longrightarrow>
   mset (concat (map snd (mapSet k (vs @ [v]) m))) = add_mset v (mset (concat (map snd m)))"
  by (induction m) (auto split: if_splits)

lemma mset_mapPush:
  "mset (concat (map snd (mapPush k v m))) = add_mset v (mset (concat (map snd m)))"
  by (cases "map_of m k") (simp_all add: mapPush_def mset_mapSet_append)

lemma mset_fold_group:
  "mset (concat (map snd
      (fold (\<lambda>f m. let extension = ext f in if extension \<noteq> [] then mapPush extension f m else m)
         files m0)))
   = mset (filter (\<lambda>f. ext f \<noteq> []) files) + mset (concat (map snd m0))"
  by (induction files arbitrary: m0) (simp_all add: mset_mapPush Let_def)

lemma mset_groupFilesByExtension:
  "mset (concat (map snd (groupFilesByExtension E h files)))
     = mset (filter (\<lambda>f. fileExtension E (h ! f) \<noteq> []) files)"
  unfolding groupFilesByExtension_def
  using mset_fold_group [of "\<lambda>f. fileExtension E (h ! f)" files "[]"] by simp

lemma set_groupFilesByExtension:
  "(k, g) \<in> set (groupFilesByExtension E h files) \<Longrightarrow> set g \<subseteq> set files"
proof -
  assume kg: "(k, g) \<in> set (groupFilesByExtension E h files)"
  have "set g \<subseteq> set (concat (map snd (groupFilesByExtension E h files)))"
    using kg by force
  also have "\<dots> = set_mset (mset (concat (map snd (groupFilesByExtension E h files))))"
    by simp
  also have "\<dots> \<subseteq> set files"
    unfolding mset_groupFilesByExtension by auto
  finally show ?thesis .
qed

subsection \<open>processWithinLimitFiles\<close>

lemma concat_concat_map:
  "mset (concat (concat (map (\<lambda>(k, g). F k g) m))) = mset (concat (map snd m))"
  if "\<And>k g. (k, g) \<in> set m \<Longrightarrow> mset (concat (F k g)) = mset g"
  using that by (induction m) auto

lemma mset_processWithinLimitFiles:
  "mset (concat (processWithinLimitFiles E h files pb cb)) =
     (if convoWithinLimit E h pb cb files then mset files
      else mset (filter (\<lambda>f. fileExtension E (h ! f) \<noteq> []) files))"
proof (cases "convoWithinLimit E h pb cb files")
  case True
  then show ?thesis by (simp add: processWithinLimitFiles_def)
next
  case False
  let ?fits = "convoWithinLimit E h pb cb"
  let ?F = "\<lambda>(extension::jsstring) filesForExt.
              if ?fits filesForExt then [filesForExt]
              else packGroup ?fits (sort_key (\<lambda>f. patchTokenLength (h ! f)) filesForExt)"
  have "mset (concat (concat (map (\<lambda>(k, g). ?F k g) (groupFilesByExtension E h files))))
          = mset (concat (map snd (groupFilesByExtension E h files)))"
    by (rule concat_concat_map) (simp add: concat_packGroup)
  with False show ?thesis
    by (simp add: processWithinLimitFiles_def Let_def mset_groupFilesByExtension)
qed

lemma processWithinLimitFiles_fits:
  assumes "\<forall>f \<in> set files. convoWithinLimit E h pb cb [f]"
  shows "\<forall>b \<in> set (processWithinLimitFiles E h files pb cb).
           convoWithinLimit E h pb cb b"
proof (cases "convoWithinLimit E h pb cb files")
  case True
  then show ?thesis by (simp add: processWithinLimitFiles_def)
next
  case False
  let ?fits = "convoWithinLimit E h pb cb"
  have "\<forall>b \<in> set (if ?fits g then [g]
                     else packGroup ?fits (sort_key (\<lambda>f. patchTokenLength (h ! f)) g)). ?fits b"
    if "(k, g) \<in> set (groupFilesByExtension E h files)" for k g
  proof (cases "?fits g")
    case True
    then show ?thesis by simp
  next
    case False
    have "\<forall>x \<in> set (sort_key (\<lambda>f. patchTokenLength (h ! f)) g). ?fits [x]"
      using set_groupFilesByExtension [OF that] assms by auto
    then have "\<forall>b \<in> set (packGroup ?fits (sort_key (\<lambda>f. patchTokenLength (h ! f)) g)). ?fits b"
      by (rule packGroup_fits)
    with False show ?thesis by simp
  qed
  note group = this
  show ?thesis
  proof
    fix b
    assume "b \<in> set (processWithinLimitFiles E h files pb cb)"
    with False have "b \<in> set (concat (map (\<lambda>(extension, filesForExt).
                          if ?fits filesForExt then [filesForExt]
                          else packGroup ?fits
                                 (sort_key (\<lambda>f. patchTokenLength (h ! f)) filesForExt))
                     (groupFilesByExtension E h files)))"
      by (simp only: processWithinLimitFiles_def Let_def simp_thms if_True)
    then obtain p where p: "p \<in> set (groupFilesByExtension E h files)"
      and b: "b \<in> set (case p of (extension, filesForExt) \<Rightarrow>
                          if ?fits filesForExt then [filesForExt]
                          else packGroup ?fits
                                 (sort_key (\<lambda>f. patchTokenLength (h ! f)) filesForExt))"
      unfolding set_concat set_map by blast
    obtain k g where kg: "p = (k, g)" by (cases p)
    from p kg have m: "(k, g) \<in> set (groupFilesByExtension E h files)" by simp
    from b kg have "b \<in> set (if ?fits g then [g]
                     else packGroup ?fits (sort_key (\<lambda>f. patchTokenLength (h ! f)) g))"
      by (simp only: prod.case)
    with group [OF m] show "?fits b" by (rule bspec)
  qed
qed


lemma processWithinLimitFiles_subset:
  assumes "b \<in> set (processWithinLimitFiles E h files pb cb)"
  shows "set b \<subseteq> set files"
proof -
  have "set b \<subseteq> set (concat (processWithinLimitFiles E h files pb cb))"
    using assms by auto
  also have "\<dots> = set_mset (mset (concat (processWithinLimitFiles E h files pb cb)))"
    by simp
  also have "\<dots> \<subseteq> set files"
    unfolding mset_processWithinLimitFiles by auto
  finally show ?thesis .
qed

subsection \<open>Stripping allocates, and writes nothing that was there\<close>

lemma stripRemovedLines_extends: "snd (stripRemovedLines h f) = h @ [(h ! f)\<lparr>patch := strippedPatch (patch (h ! f))\<rparr>]"
  by (simp add: stripRemovedLines_def alloc_def)

lemma stripAll_extends: "\<exists>ys. snd (stripAll h fs) = h @ ys"
proof (induction fs arbitrary: h)
  case Nil
  then show ?case by simp
next
  case (Cons f fs)
  obtain f' h' where s: "stripRemovedLines h f = (f', h')" by (cases "stripRemovedLines h f")
  then have h': "h' = h @ [(h ! f)\<lparr>patch := strippedPatch (patch (h ! f))\<rparr>]"
    using stripRemovedLines_extends [of h f] by simp
  obtain ys where "snd (stripAll h' fs) = h' @ ys" using Cons.IH by blast
  then show ?case using s h' by (auto split: prod.splits)
qed

lemma processOutsideLimitFiles_extends:
  "\<exists>ys. snd (processOutsideLimitFiles E h files pb cb) = h @ ys"
proof (cases "length files = 0")
  case True
  then show ?thesis by (simp add: processOutsideLimitFiles_def)
next
  case False
  obtain stripped h' where s: "stripAll h files = (stripped, h')" by (cases "stripAll h files")
  then obtain ys where "h' = h @ ys" using stripAll_extends [of h files] by auto
  moreover have "snd (processOutsideLimitFiles E h files pb cb) = h'"
    using False s by (simp add: processOutsideLimitFiles_def Let_def)
  ultimately show ?thesis by simp
qed

lemma processOutsideLimitFiles_fits:
  "\<forall>b \<in> set (fst (processOutsideLimitFiles E h files pb cb)).
     convoWithinLimit E (snd (processOutsideLimitFiles E h files pb cb)) pb cb b"
proof (cases "length files = 0")
  case True
  then show ?thesis by (simp add: processOutsideLimitFiles_def)
next
  case False
  obtain stripped h' where s: "stripAll h files = (stripped, h')" by (cases "stripAll h files")
  let ?fits = "convoWithinLimit E h' pb cb"
  show ?thesis
  proof (cases "?fits stripped")
    case True
    with False s show ?thesis by (simp add: processOutsideLimitFiles_def)
  next
    case nofit: False
    have r: "processOutsideLimitFiles E h files pb cb =
            (processWithinLimitFiles E h' (filter (\<lambda>f. ?fits [f]) stripped) pb cb, h')"
      using False s nofit by (simp add: processOutsideLimitFiles_def Let_def)
    have "\<forall>b \<in> set (processWithinLimitFiles E h' (filter (\<lambda>f. ?fits [f]) stripped) pb cb). ?fits b"
      by (rule processWithinLimitFiles_fits) simp
    then show ?thesis unfolding r by (simp only: fst_conv snd_conv)
  qed
qed

subsection \<open>The token annotation writes one field\<close>

lemma annotateTokenLength_length [simp]: "length (annotateTokenLength E pb fs h) = length h"
  unfolding annotateTokenLength_def by (induction fs arbitrary: h) simp_all

lemma annotateTokenLength_frame:
  "r < length h \<Longrightarrow> \<exists>n. annotateTokenLength E pb fs h ! r = (h ! r)\<lparr>patchTokenLength := n\<rparr>"
  unfolding annotateTokenLength_def
proof (induction fs arbitrary: h)
  case Nil
  have "h ! r = (h ! r)\<lparr>patchTokenLength := patchTokenLength (h ! r)\<rparr>" by simp
  then show ?case by (metis fold_simps(1))
next
  case (Cons f fs)
  let ?h' = "h[f := (h ! f)\<lparr>patchTokenLength := getTokenLength E (pb (h ! f))\<rparr>]"
  have "\<exists>m. ?h' ! r = (h ! r)\<lparr>patchTokenLength := m\<rparr>"
  proof (cases "r = f")
    case True
    with Cons.prems show ?thesis by auto
  next
    case False
    have "h ! r = (h ! r)\<lparr>patchTokenLength := patchTokenLength (h ! r)\<rparr>" by simp
    with False show ?thesis by (metis nth_list_update_neq)
  qed
  then obtain m where m: "?h' ! r = (h ! r)\<lparr>patchTokenLength := m\<rparr>" ..
  have "r < length ?h'" using Cons.prems by simp
  from Cons.IH [OF this] obtain n where
    "fold (\<lambda>f h. h[f := (h ! f)\<lparr>patchTokenLength := getTokenLength E (pb (h ! f))\<rparr>]) fs ?h' ! r
       = (?h' ! r)\<lparr>patchTokenLength := n\<rparr>" ..
  then have "fold (\<lambda>f h. h[f := (h ! f)\<lparr>patchTokenLength := getTokenLength E (pb (h ! f))\<rparr>]) (f # fs) h ! r
       = (h ! r)\<lparr>patchTokenLength := n\<rparr>"
    using m by simp
  then show ?case by blast
qed


subsection \<open>The planning phase\<close>

lemma planGroups_frame:
  assumes "r < length h"
  shows "r < length (snd (planGroups E h files cb))
         \<and> (\<exists>n. snd (planGroups E h files cb) ! r = (h ! r)\<lparr>patchTokenLength := n\<rparr>)"
proof -
  let ?pb = "buildPatchPrompt E"
  let ?filtered = "filter (\<lambda>f. filterPRFile E (h ! f)) files"
  let ?h1 = "annotateTokenLength E ?pb ?filtered h"
  let ?fits = "convoWithinLimit E ?h1 ?pb cb"
  let ?out = "processOutsideLimitFiles E ?h1 (filter (\<lambda>f. \<not> ?fits [f]) ?filtered) ?pb cb"
  have h2: "snd (planGroups E h files cb) = snd ?out"
    by (simp add: planGroups_def Let_def split: prod.splits)
  obtain ys where ys: "snd ?out = ?h1 @ ys"
    using processOutsideLimitFiles_extends by blast
  obtain n where n: "?h1 ! r = (h ! r)\<lparr>patchTokenLength := n\<rparr>"
    using annotateTokenLength_frame [OF assms] by blast
  have "snd ?out ! r = ?h1 ! r" unfolding ys using assms by (simp add: nth_append)
  with n have "snd (planGroups E h files cb) ! r = (h ! r)\<lparr>patchTokenLength := n\<rparr>"
    by (simp only: h2)
  moreover have "r < length (snd (planGroups E h files cb))"
    unfolding h2 ys using assms by simp
  ultimately show ?thesis by blast
qed

lemma planGroups_fits:
  assumes valid: "\<forall>f \<in> set files. f < length h"
  shows "\<forall>b \<in> set (fst (planGroups E h files cb)).
           convoWithinLimit E (snd (planGroups E h files cb)) (buildPatchPrompt E) cb b"
proof
  fix b
  assume b: "b \<in> set (fst (planGroups E h files cb))"
  let ?pb = "buildPatchPrompt E"
  let ?filtered = "filter (\<lambda>f. filterPRFile E (h ! f)) files"
  let ?h1 = "annotateTokenLength E ?pb ?filtered h"
  let ?fits = "convoWithinLimit E ?h1 ?pb cb"
  let ?within = "filter (\<lambda>f. ?fits [f]) ?filtered"
  let ?in = "processWithinLimitFiles E ?h1 ?within ?pb cb"
  let ?out = "processOutsideLimitFiles E ?h1 (filter (\<lambda>f. \<not> ?fits [f]) ?filtered) ?pb cb"
  have groups: "fst (planGroups E h files cb) = ?in @ fst ?out"
    by (simp add: planGroups_def Let_def split: prod.splits)
  have h2: "snd (planGroups E h files cb) = snd ?out"
    by (simp add: planGroups_def Let_def split: prod.splits)
  obtain ys where ys: "snd ?out = ?h1 @ ys"
    using processOutsideLimitFiles_extends by blast
  from b groups have "b \<in> set ?in \<or> b \<in> set (fst ?out)" by simp
  then show "convoWithinLimit E (snd (planGroups E h files cb)) ?pb cb b"
  proof
    assume bin: "b \<in> set ?in"
    have "\<forall>b \<in> set ?in. ?fits b"
      by (rule processWithinLimitFiles_fits) simp
    then have fit1: "?fits b" using bin by (rule bspec)
    have "set b \<subseteq> set ?within" using bin by (rule processWithinLimitFiles_subset)
    then have "\<forall>f \<in> set b. f < length ?h1" using valid by auto
    then have "map ((!) (?h1 @ ys)) b = map ((!) ?h1) b"
      by (simp add: nth_append)
    then have "convoWithinLimit E (?h1 @ ys) ?pb cb b = ?fits b"
      by (simp only: convoWithinLimit_def)
    with fit1 show ?thesis by (simp only: h2 ys)
  next
    assume "b \<in> set (fst ?out)"
    with processOutsideLimitFiles_fits [of E ?h1 _ ?pb cb]
    have "convoWithinLimit E (snd ?out) ?pb cb b" by (rule bspec)
    then show ?thesis by (simp only: h2)
  qed
qed

lemma generateChatCompletion_store [simp]:
  "store (snd (generateChatCompletion E messages withFunctions w)) = store w"
  by (simp add: generateChatCompletion_def)

lemma reviewFiles_store [simp]: "store (snd (reviewFiles E g pb cb w)) = store w"
  by (simp add: reviewFiles_def reviewDiff_def Let_def split_beta split: sum.splits)

lemma reviewGroups_store [simp]: "store (snd (reviewGroups E groups pb cb w)) = store w"
  by (induction groups arbitrary: w) (simp_all add: split_beta)

lemma reviewChanges_store:
  "store (snd (reviewChanges E files cb rb w)) = snd (planGroups E (store w) files cb)"
proof -
  obtain groups h2 where p: "planGroups E (store w) files cb = (groups, h2)"
    by (cases "planGroups E (store w) files cb")
  have "store (snd (reviewGroups E groups (buildPatchPrompt E) cb (w\<lparr>store := h2\<rparr>))) = h2"
    by simp
  then show ?thesis
    by (simp add: reviewChanges_def p split_beta split: sum.splits)
qed

lemma reviewChanges_frame:
  assumes "r < length (store w)"
  shows "r < length (store (snd (reviewChanges E files cb rb w)))
         \<and> (\<exists>n. store (snd (reviewChanges E files cb rb w)) ! r
                 = (store w ! r)\<lparr>patchTokenLength := n\<rparr>)"
  unfolding reviewChanges_store using assms by (rule planGroups_frame)

lemma reviewChangesRetry_frame:
  "r < length (store w) \<Longrightarrow>
   r < length (store (snd (reviewChangesRetry E files bs w)))
   \<and> (\<exists>n. store (snd (reviewChangesRetry E files bs w)) ! r
           = (store w ! r)\<lparr>patchTokenLength := n\<rparr>)"
proof (induction bs arbitrary: w)
  case Nil
  have "store w ! r = (store w ! r)\<lparr>patchTokenLength := patchTokenLength (store w ! r)\<rparr>"
    by simp
  then have "\<exists>n. store w ! r = (store w ! r)\<lparr>patchTokenLength := n\<rparr>" by blast
  with Nil show ?case by simp
next
  case (Cons b bs)
  obtain res w' where rc: "reviewChanges E files (convoBuilder b) (responseBuilder b) w = (res, w')"
    by (cases "reviewChanges E files (convoBuilder b) (responseBuilder b) w")
  from reviewChanges_frame [OF Cons.prems, of E files "convoBuilder b" "responseBuilder b"] rc
  obtain n where len: "r < length (store w')"
    and n: "store w' ! r = (store w ! r)\<lparr>patchTokenLength := n\<rparr>"
    by auto
  show ?case
  proof (cases res)
    case (Inr x)
    with rc len n show ?thesis by auto
  next
    case (Inl e)
    from Cons.IH [OF len] obtain m where
      "r < length (store (snd (reviewChangesRetry E files bs w')))"
      "store (snd (reviewChangesRetry E files bs w')) ! r = (store w' ! r)\<lparr>patchTokenLength := m\<rparr>"
      by blast
    with Inl rc n show ?thesis by auto
  qed
qed

section \<open>Every planned batch fits\<close>

text \<open>
  Claim C1. Every batch that \<open>processOutsideLimitFiles\<close> emits passes
  \<open>isConversationWithinLimit\<close> on the conversation built from exactly its files; so does
  every batch of \<open>processWithinLimitFiles\<close> when each input file fits alone, which is how
  the planner calls it; and so does every batch of the planning phase of \<open>reviewChanges\<close>,
  for every list of file references into the store.
\<close>

theorem planned_batches_fit:
  "(\<forall>b \<in> set (fst (processOutsideLimitFiles E h files pb cb)).
      convoWithinLimit E (snd (processOutsideLimitFiles E h files pb cb)) pb cb b)
   \<and> ((\<forall>f \<in> set files. convoWithinLimit E h pb cb [f]) \<longrightarrow>
        (\<forall>b \<in> set (processWithinLimitFiles E h files pb cb). convoWithinLimit E h pb cb b))
   \<and> ((\<forall>f \<in> set files. f < length h) \<longrightarrow>
        (\<forall>b \<in> set (fst (planGroups E h files cb)).
           convoWithinLimit E (snd (planGroups E h files cb)) (buildPatchPrompt E) cb b))"
  using processOutsideLimitFiles_fits [of E h files pb cb]
    processWithinLimitFiles_fits [of files E h pb cb]
    planGroups_fits [of files h E cb]
  by blast

theorem planned_batches_fit_witness:
  "fst (planGroups (budgetEnv 4) threeFiles [0, 1, 2] (getXMLReviewPrompt (budgetEnv 4)))
     = [[0], [1], [3]]
   \<and> convoWithinLimit (budgetEnv 4)
        (snd (planGroups (budgetEnv 4) threeFiles [0, 1, 2] (getXMLReviewPrompt (budgetEnv 4))))
        (buildPatchPrompt (budgetEnv 4)) (getXMLReviewPrompt (budgetEnv 4)) [3]"
proof -
  let ?E = "budgetEnv 4"
  let ?cb = "getXMLReviewPrompt ?E"
  have groups: "fst (planGroups ?E threeFiles [0, 1, 2] ?cb) = [[0], [1], [3]]"
    by code_simp
  have valid: "\<forall>f \<in> set [0, 1, 2]. f < length threeFiles"
    by (simp add: threeFiles_def)
  from planned_batches_fit [of ?E threeFiles "[0, 1, 2]" "buildPatchPrompt ?E" ?cb] valid
  have "\<forall>b \<in> set (fst (planGroups ?E threeFiles [0, 1, 2] ?cb)).
          convoWithinLimit ?E (snd (planGroups ?E threeFiles [0, 1, 2] ?cb))
            (buildPatchPrompt ?E) ?cb b"
    by blast
  then have "convoWithinLimit ?E (snd (planGroups ?E threeFiles [0, 1, 2] ?cb))
            (buildPatchPrompt ?E) ?cb [3]"
    unfolding groups by (rule bspec) simp
  with groups show ?thesis by (rule conjI)
qed

section \<open>Which files the fits-alone path emits\<close>

text \<open>
  Claim C2 does not hold of the code. A file whose name ends in a dot passes the filter and
  fits alone; when the whole list does not fit in one conversation, \<open>groupFilesByExtension\<close>
  files it under no extension and no batch holds it, while the branch for a list that fits
  as a whole emits it. Here the files are \<open>a.\<close> and \<open>b.ts\<close>, each fits alone, both together
  do not, and the only batch is the one of \<open>b.ts\<close>.
\<close>

theorem processWithinLimitFiles_drops_dot_file:
  "processWithinLimitFiles (budgetEnv 3) dotFiles [0, 1] (buildPatchPrompt (budgetEnv 3))
       (getXMLReviewPrompt (budgetEnv 3)) = [[1]]
   \<and> convoWithinLimit (budgetEnv 3) dotFiles (buildPatchPrompt (budgetEnv 3))
        (getXMLReviewPrompt (budgetEnv 3)) [0]
   \<and> convoWithinLimit (budgetEnv 3) dotFiles (buildPatchPrompt (budgetEnv 3))
        (getXMLReviewPrompt (budgetEnv 3)) [1]
   \<and> filterPRFile (budgetEnv 3) (dotFiles ! 0)
   \<and> filterPRFile (budgetEnv 3) (dotFiles ! 1)"
  by code_simp

text \<open>
  What the code does emit: counted over all batches, exactly the input files when the whole
  list fits in one conversation, and exactly the input files whose name has a non-empty
  extension after its last dot otherwise; each of those is in exactly one batch, once.
\<close>

theorem processWithinLimitFiles_covers:
  "mset (concat (processWithinLimitFiles E h files pb cb)) =
     (if convoWithinLimit E h pb cb files then mset files
      else mset (filter (\<lambda>f. fileExtension E (h ! f) \<noteq> []) files))"
  by (rule mset_processWithinLimitFiles)

section \<open>What the planning writes\<close>

text \<open>
  Claim C10. \<open>stripRemovedLines\<close> returns a new record and leaves every record of the store
  as it was. After the planning phase of \<open>reviewChanges\<close>, after \<open>reviewChanges\<close> and after
  the whole fallback of \<open>reviewChangesRetry\<close>, every record that was in the store holds its
  original patch, and differs from its original value in \<open>patchTokenLength\<close> at most.
\<close>

theorem planning_keeps_patches:
  "fst (stripRemovedLines (store w) f) = length (store w)
   \<and> (\<forall>r < length (store w).
        snd (stripRemovedLines (store w) f) ! r = store w ! r
        \<and> patch (snd (planGroups E (store w) files cb) ! r) = patch (store w ! r)
        \<and> (snd (planGroups E (store w) files cb) ! r)
             \<lparr>patchTokenLength := patchTokenLength (store w ! r)\<rparr> = store w ! r
        \<and> patch (store (snd (reviewChanges E files cb rb w)) ! r) = patch (store w ! r)
        \<and> (store (snd (reviewChanges E files cb rb w)) ! r)
             \<lparr>patchTokenLength := patchTokenLength (store w ! r)\<rparr> = store w ! r
        \<and> patch (store (snd (reviewChangesRetry E files bs w)) ! r) = patch (store w ! r)
        \<and> (store (snd (reviewChangesRetry E files bs w)) ! r)
             \<lparr>patchTokenLength := patchTokenLength (store w ! r)\<rparr> = store w ! r)"
proof (intro conjI allI impI)
  show "fst (stripRemovedLines (store w) f) = length (store w)"
    by (simp add: stripRemovedLines_def alloc_def)
next
  fix r assume r: "r < length (store w)"
  show "snd (stripRemovedLines (store w) f) ! r = store w ! r"
    using r by (simp add: stripRemovedLines_extends nth_append)
  obtain n where n: "snd (planGroups E (store w) files cb) ! r = (store w ! r)\<lparr>patchTokenLength := n\<rparr>"
    using planGroups_frame [OF r] by blast
  show "patch (snd (planGroups E (store w) files cb) ! r) = patch (store w ! r)"
    by (simp add: n)
  show "(snd (planGroups E (store w) files cb) ! r)
             \<lparr>patchTokenLength := patchTokenLength (store w ! r)\<rparr> = store w ! r"
    by (simp add: n)
  obtain m where m: "store (snd (reviewChanges E files cb rb w)) ! r = (store w ! r)\<lparr>patchTokenLength := m\<rparr>"
    using reviewChanges_frame [OF r] by blast
  show "patch (store (snd (reviewChanges E files cb rb w)) ! r) = patch (store w ! r)"
    by (simp add: m)
  show "(store (snd (reviewChanges E files cb rb w)) ! r)
             \<lparr>patchTokenLength := patchTokenLength (store w ! r)\<rparr> = store w ! r"
    by (simp add: m)
  obtain k where k: "store (snd (reviewChangesRetry E files bs w)) ! r = (store w ! r)\<lparr>patchTokenLength := k\<rparr>"
    using reviewChangesRetry_frame [OF r] by blast
  show "patch (store (snd (reviewChangesRetry E files bs w)) ! r) = patch (store w ! r)"
    by (simp add: k)
  show "(store (snd (reviewChangesRetry E files bs w)) ! r)
             \<lparr>patchTokenLength := patchTokenLength (store w ! r)\<rparr> = store w ! r"
    by (simp add: k)
qed

theorem planning_keeps_patches_witness:
  "patch (store (snd (reviewChanges (budgetEnv 4) [0, 1, 2] (getXMLReviewPrompt (budgetEnv 4))
                        basicResponseBuilder \<lparr>store = threeFiles, calls = 0\<rparr>)) ! 2)
     = js ''-aaaaaaa\<newline>+z''"
proof -
  let ?w = "\<lparr>store = threeFiles, calls = 0\<rparr>"
  have r: "2 < length (store ?w)" by (simp add: threeFiles_def)
  from planning_keeps_patches [of ?w 0 "budgetEnv 4" "[0, 1, 2]"
      "getXMLReviewPrompt (budgetEnv 4)" basicResponseBuilder "[]"] r
  have "patch (store (snd (reviewChanges (budgetEnv 4) [0, 1, 2]
                 (getXMLReviewPrompt (budgetEnv 4)) basicResponseBuilder ?w)) ! 2)
          = patch (store ?w ! 2)"
    by blast
  then show ?thesis by (simp add: threeFiles_def mkFile_def)
qed

section \<open>The fallback over strategies\<close>

lemma worldBefore_0 [simp]: "worldBefore E files bs w 0 = w"
  by (simp add: worldBefore_def)

lemma worldBefore_Suc [simp]:
  "worldBefore E files (b # bs) w (Suc i) =
     worldBefore E files bs (snd (reviewChanges E files (convoBuilder b) (responseBuilder b) w)) i"
  by (simp add: worldBefore_def)

lemma pairRun_0 [simp]:
  "pairRun E files (b # bs) w 0 = fst (reviewChanges E files (convoBuilder b) (responseBuilder b) w)"
  by (simp add: pairRun_def)

lemma pairRun_Suc [simp]:
  "pairRun E files (b # bs) w (Suc i) =
     pairRun E files bs (snd (reviewChanges E files (convoBuilder b) (responseBuilder b) w)) i"
  by (simp add: pairRun_def)

lemma reviewChangesRetry_first_success:
  "i < length bs \<Longrightarrow> \<forall>j < i. isl (pairRun E files bs w j) \<Longrightarrow> \<not> isl (pairRun E files bs w i)
   \<Longrightarrow> fst (reviewChangesRetry E files bs w) = pairRun E files bs w i"
proof (induction bs arbitrary: w i)
  case Nil
  then show ?case by simp
next
  case (Cons b bs)
  obtain res w' where rc: "reviewChanges E files (convoBuilder b) (responseBuilder b) w = (res, w')"
    by (cases "reviewChanges E files (convoBuilder b) (responseBuilder b) w")
  show ?case
  proof (cases i)
    case 0
    with Cons.prems rc show ?thesis by (cases res) auto
  next
    case (Suc k)
    have "isl (pairRun E files (b # bs) w 0)" using Cons.prems(2) Suc by blast
    then obtain e where e: "res = Inl e" using rc by (cases res) auto
    have "\<forall>j < k. isl (pairRun E files bs w' j)"
    proof (intro allI impI)
      fix j assume "j < k"
      then have "Suc j < i" using Suc by simp
      then have "isl (pairRun E files (b # bs) w (Suc j))" using Cons.prems(2) by blast
      then show "isl (pairRun E files bs w' j)" using rc by simp
    qed
    moreover have "\<not> isl (pairRun E files bs w' k)" using Cons.prems(3) Suc rc by simp
    moreover have "k < length bs" using Cons.prems(1) Suc by simp
    ultimately have "fst (reviewChangesRetry E files bs w') = pairRun E files bs w' k"
      by (rule Cons.IH [rotated -1, rotated -1]) 
    then show ?thesis using rc e Suc by simp
  qed
qed

lemma reviewChangesRetry_fails_iff:
  "isl (fst (reviewChangesRetry E files bs w)) \<longleftrightarrow> (\<forall>i < length bs. isl (pairRun E files bs w i))"
proof (induction bs arbitrary: w)
  case Nil
  then show ?case by simp
next
  case (Cons b bs)
  obtain res w' where rc: "reviewChanges E files (convoBuilder b) (responseBuilder b) w = (res, w')"
    by (cases "reviewChanges E files (convoBuilder b) (responseBuilder b) w")
  show ?case
  proof (cases res)
    case (Inr r)
    then have "\<not> isl (pairRun E files (b # bs) w 0)" using rc by simp
    then have "\<not> (\<forall>i < length (b # bs). isl (pairRun E files (b # bs) w i))" by auto
    moreover have "\<not> isl (fst (reviewChangesRetry E files (b # bs) w))" using rc Inr by simp
    ultimately show ?thesis by blast
  next
    case (Inl e)
    have "(\<forall>i < length (b # bs). isl (pairRun E files (b # bs) w i))
            \<longleftrightarrow> (\<forall>i < length bs. isl (pairRun E files bs w' i))"
    proof
      assume a: "\<forall>i < length (b # bs). isl (pairRun E files (b # bs) w i)"
      show "\<forall>i < length bs. isl (pairRun E files bs w' i)"
      proof (intro allI impI)
        fix i assume "i < length bs"
        then have "Suc i < length (b # bs)" by simp
        then have "isl (pairRun E files (b # bs) w (Suc i))" using a by blast
        then show "isl (pairRun E files bs w' i)" using rc by simp
      qed
    next
      assume a: "\<forall>i < length bs. isl (pairRun E files bs w' i)"
      show "\<forall>i < length (b # bs). isl (pairRun E files (b # bs) w i)"
      proof (intro allI impI)
        fix i assume "i < length (b # bs)"
        then show "isl (pairRun E files (b # bs) w i)"
          using a rc Inl by (cases i) auto
      qed
    qed
    moreover have "fst (reviewChangesRetry E files (b # bs) w) = fst (reviewChangesRetry E files bs w')"
      using rc Inl by simp
    ultimately show ?thesis using Cons.IH [of w'] by simp
  qed
qed

lemma reviewChangesRetry_error:
  "fst (reviewChangesRetry E files bs w) = Inl e \<Longrightarrow> e = AllConvoBuildersFailed"
proof (induction bs arbitrary: w)
  case Nil
  then show ?case by simp
next
  case (Cons b bs)
  obtain res w' where rc: "reviewChanges E files (convoBuilder b) (responseBuilder b) w = (res, w')"
    by (cases "reviewChanges E files (convoBuilder b) (responseBuilder b) w")
  show ?case
  proof (cases res)
    case (Inr r)
    with Cons.prems rc show ?thesis by simp
  next
    case (Inl e')
    with Cons.prems rc have "fst (reviewChangesRetry E files bs w') = Inl e" by simp
    then show ?thesis by (rule Cons.IH)
  qed
qed

lemma reviewChanges_builder_fails:
  "\<forall>feedbacks. isl (rb feedbacks) \<Longrightarrow> isl (fst (reviewChanges E files cb rb w))"
  by (simp add: reviewChanges_def split_beta split: sum.splits)

text \<open>
  Claim C5. \<open>reviewChangesRetry\<close> returns the outcome of the first pair whose run succeeds,
  each pair running in the world its predecessors left; when a pair's run raises (as it
  does when its response builder fails on the feedbacks) the fallback goes on with the
  next pair; and it throws if and only if every pair's run fails, the error then being
  the one that says all builders failed.
\<close>

theorem reviewChangesRetry_first_success_wins:
  "(\<forall>i < length bs.
      (\<forall>j < i. isl (pairRun E files bs w j)) \<and> \<not> isl (pairRun E files bs w i) \<longrightarrow>
      fst (reviewChangesRetry E files bs w) = pairRun E files bs w i)
   \<and> (\<forall>(b::Builders) rest e w'.
        reviewChanges E files (convoBuilder b) (responseBuilder b) w = (Inl e, w') \<longrightarrow>
        reviewChangesRetry E files (b # rest) w = reviewChangesRetry E files rest w')
   \<and> (\<forall>cb rb. (\<forall>feedbacks. isl (rb feedbacks)) \<longrightarrow> isl (fst (reviewChanges E files cb rb w)))
   \<and> (isl (fst (reviewChangesRetry E files bs w))
        \<longleftrightarrow> (\<forall>i < length bs. isl (pairRun E files bs w i)))
   \<and> (\<forall>e. fst (reviewChangesRetry E files bs w) = Inl e \<longrightarrow> e = AllConvoBuildersFailed)"
proof (intro conjI allI impI)
  fix i
  assume "i < length bs"
    and "(\<forall>j < i. isl (pairRun E files bs w j)) \<and> \<not> isl (pairRun E files bs w i)"
  then show "fst (reviewChangesRetry E files bs w) = pairRun E files bs w i"
    using reviewChangesRetry_first_success [of i bs E files w] by blast
next
  fix b :: Builders and rest e w'
  assume "reviewChanges E files (convoBuilder b) (responseBuilder b) w = (Inl e, w')"
  then show "reviewChangesRetry E files (b # rest) w = reviewChangesRetry E files rest w'"
    by simp
next
  fix cb :: "jsstring \<Rightarrow> conversation"
    and rb :: "jsstring option list \<Rightarrow> error + BuilderResponse"
  assume "\<forall>feedbacks. isl (rb feedbacks)"
  then show "isl (fst (reviewChanges E files cb rb w))"
    by (rule reviewChanges_builder_fails)
next
  show "isl (fst (reviewChangesRetry E files bs w))
        \<longleftrightarrow> (\<forall>i < length bs. isl (pairRun E files bs w i))"
    by (rule reviewChangesRetry_fails_iff)
next
  fix e
  assume "fst (reviewChangesRetry E files bs w) = Inl e"
  then show "e = AllConvoBuildersFailed" by (rule reviewChangesRetry_error)
qed

theorem reviewChangesRetry_first_success_wins_witness:
  "fst (reviewChangesRetry answeringEnv [0, 1, 2] (bothStrategies answeringEnv)
          \<lparr>store = threeFiles, calls = 0\<rparr>)
     = Inr \<lparr>comment = js ''ok\<newline>ok\<newline>ok'', structuredComments = []\<rparr>"
proof -
  let ?bs = "bothStrategies answeringEnv"
  let ?w = "\<lparr>store = threeFiles, calls = 0\<rparr>"
  have len: "1 < length ?bs" by (simp add: bothStrategies_def)
  have first: "isl (pairRun answeringEnv [0, 1, 2] ?bs ?w 0)" by code_simp
  have second: "pairRun answeringEnv [0, 1, 2] ?bs ?w 1
                  = Inr \<lparr>comment = js ''ok\<newline>ok\<newline>ok'', structuredComments = []\<rparr>"
    by code_simp
  have failed: "\<forall>j < 1. isl (pairRun answeringEnv [0, 1, 2] ?bs ?w j)"
    using first by simp
  have succeeded: "\<not> isl (pairRun answeringEnv [0, 1, 2] ?bs ?w 1)"
    unfolding second by simp
  have "fst (reviewChangesRetry answeringEnv [0, 1, 2] ?bs ?w)
          = pairRun answeringEnv [0, 1, 2] ?bs ?w 1"
    using reviewChangesRetry_first_success_wins
            [of ?bs answeringEnv "[0, 1, 2]" ?w, THEN conjunct1, THEN spec, THEN mp, OF len,
             THEN mp, OF conjI, OF failed succeeded] .
  then show ?thesis unfolding second .
qed

section \<open>A fix that changes nothing is no fix\<close>








section \<open>Nothing to review\<close>

text \<open>
  Claim C7. When the filter rejects every file of the incoming list, \<open>processPullRequest\<close>
  returns the empty review (no review, no suggestions) and leaves the world as it was: no
  model call is counted and no record is written.
\<close>

theorem processPullRequest_nothing_to_review:
  "\<forall>f \<in> set files. \<not> filterPRFile E (store w ! f) \<Longrightarrow>
   processPullRequest E payload files includeSuggestions w
     = (Inr \<lparr>review = None, suggestions = []\<rparr>, w)"
proof -
  assume "\<forall>f \<in> set files. \<not> filterPRFile E (store w ! f)"
  then have "filter (\<lambda>f. filterPRFile E (store w ! f)) files = []"
    by (simp add: filter_empty_conv)
  then show ?thesis by (simp add: processPullRequest_def)
qed

theorem processPullRequest_nothing_to_review_witness:
  "processPullRequest answeringEnv samplePayload [0, 1, 2] True \<lparr>store = ignoredFiles, calls = 0\<rparr>
     = (Inr \<lparr>review = None, suggestions = []\<rparr>, \<lparr>store = ignoredFiles, calls = 0\<rparr>)"
proof -
  have "\<not> filterPRFile answeringEnv (ignoredFiles ! 0)" by code_simp
  moreover have "\<not> filterPRFile answeringEnv (ignoredFiles ! 1)" by code_simp
  moreover have "\<not> filterPRFile answeringEnv (ignoredFiles ! 2)" by code_simp
  ultimately have "\<forall>f \<in> set [0, 1, 2].
      \<not> filterPRFile answeringEnv (store \<lparr>store = ignoredFiles, calls = 0\<rparr> ! f)"
    by simp
  then show ?thesis by (rule processPullRequest_nothing_to_review)
qed

end
